theory Spec2Isabelle
  imports
    Complex_Main
    "HOL-Library.AList"
    "HOL-Library.Char_ord"
    "HOL-Library.List_Lexorder"
    "HOL-Library.Multiset"
begin

section \<open>Snapshot records\<close>

text \<open>
  Modelled from the spec: the declaration of \<open>SavedSnapshot\<close> is in \<open>types.ts\<close>, which is
  not among the sources. The spec's data model gives the fields: \<open>id\<close> (string, the primary
  key), \<open>originalUrl\<close> (string), \<open>timestamp\<close> (the archive's capture time), \<open>savedAt\<close>
  (numeric epoch time of the local write) and the descriptive fields \<open>title\<close> and \<open>status\<close>,
  which the store never interprets. The field \<open>id\<close> is written \<open>id'\<close> (\<open>id\<close> is the identity
  function of HOL); \<open>savedAt\<close> is an integer number of milliseconds, as \<open>Date.now()\<close>
  produces it.
\<close>

record SavedSnapshot =
  id' :: string
  originalUrl :: string
  timestamp :: string
  savedAt :: int
  title :: string
  status :: string

definition DB_NAME :: string where
  "DB_NAME = ''OmniDashDB''"

definition DB_VERSION :: nat where
  "DB_VERSION = 1"

definition STORE_NAME :: string where
  "STORE_NAME = ''snapshots''"


section \<open>The storage engine\<close>

text \<open>
  \<open>storageService.ts\<close> talks to the browser's Indexed Database engine, which is not code
  of the repository. The engine is modelled as explicit state, following the algorithms of
  the Indexed Database standard that the service relies on: a database has a version and
  named object stores; an object store with key path \<open>id\<close> holds its records in ascending
  order of key, at most one record per key; storing a record first removes the record with
  the same key; reading or deleting a key that is absent succeeds.

  The engine may refuse any request (quota exhausted, storage disabled). The refusals are an
  oracle in the state: the list \<open>faults\<close> is consumed one entry per request, \<open>Some e\<close>
  making that request fail with the error named \<open>e\<close>; an exhausted list refuses nothing.
  The \<open>journal\<close> records the open requests served and the schema changes made, so that
  statements about what the engine was asked to do can be made.
\<close>

record object_store =
  keyPath :: string
  indexes :: "(string \<times> string \<times> bool) list"
  records :: "SavedSnapshot list"

record idb_database =
  version :: nat
  objectStores :: "(string \<times> object_store) list"

datatype event =
    Open string nat
  | UpgradeNeeded string nat nat
  | CreateObjectStore string string string
  | CreateIndex string string string string bool

text \<open>An open connection (the \<open>IDBDatabase\<close> object of the source).\<close>

record IDBDatabase =
  conn_id :: nat
  conn_name :: string

record world =
  databases :: "(string \<times> idb_database) list"
  connections :: nat
  journal :: "event list"
  faults :: "string option list"

datatype mode = ReadOnly | ReadWrite

record IDBTransaction =
  tx_db :: string
  tx_scope :: "string list"
  tx_mode :: mode

record IDBObjectStore =
  os_tx :: IDBTransaction
  os_name :: string

definition next_outcome :: "world \<Rightarrow> string option \<times> world" where
  "next_outcome w =
     (case faults w of
        [] \<Rightarrow> (None, w)
      | f # fs \<Rightarrow> (f, w\<lparr>faults := fs\<rparr>))"

definition lookup_store :: "string \<Rightarrow> string \<Rightarrow> world \<Rightarrow> object_store option" where
  "lookup_store dbn sn w =
     (case map_of (databases w) dbn of
        None \<Rightarrow> None
      | Some d \<Rightarrow> map_of (objectStores d) sn)"

definition objectStoreNames_contains :: "IDBDatabase \<Rightarrow> string \<Rightarrow> world \<Rightarrow> bool" where
  "objectStoreNames_contains h sn w = (lookup_store (conn_name h) sn w \<noteq> None)"

definition update_store :: "string \<Rightarrow> string \<Rightarrow> (object_store \<Rightarrow> object_store) \<Rightarrow> world \<Rightarrow> world" where
  "update_store dbn sn f w =
     w\<lparr>databases :=
         AList.map_entry dbn
           (\<lambda>d. d\<lparr>objectStores := AList.map_entry sn f (objectStores d)\<rparr>)
           (databases w)\<rparr>"

text \<open>
  \<open>createObjectStore\<close> and \<open>createIndex\<close> run inside the version-change transaction of an
  open request. They raise \<open>ConstraintError\<close> when the name is taken and \<open>NotFoundError\<close>
  when the store is missing.
\<close>

definition createObjectStore :: "IDBDatabase \<Rightarrow> string \<Rightarrow> string \<Rightarrow> world \<Rightarrow> string + world" where
  "createObjectStore h sn kp w =
     (if objectStoreNames_contains h sn w then Inl ''ConstraintError''
      else Inr (w\<lparr>databases :=
                    AList.map_entry (conn_name h)
                      (\<lambda>d. d\<lparr>objectStores :=
                               objectStores d @ [(sn, \<lparr>keyPath = kp, indexes = [], records = []\<rparr>)]\<rparr>)
                      (databases w),
                  journal := journal w @ [CreateObjectStore (conn_name h) sn kp]\<rparr>))"

definition createIndex :: "IDBDatabase \<Rightarrow> string \<Rightarrow> string \<Rightarrow> string \<Rightarrow> bool \<Rightarrow> world \<Rightarrow> string + world" where
  "createIndex h sn ixn kp uniq w =
     (case lookup_store (conn_name h) sn w of
        None \<Rightarrow> Inl ''NotFoundError''
      | Some st \<Rightarrow>
          if ixn \<in> fst ` set (indexes st) then Inl ''ConstraintError''
          else Inr ((update_store (conn_name h) sn
                       (\<lambda>st. st\<lparr>indexes := indexes st @ [(ixn, kp, uniq)]\<rparr>) w)
                    \<lparr>journal := journal w @ [CreateIndex (conn_name h) sn ixn kp uniq]\<rparr>))"

text \<open>
  \<open>indexedDB.open(name, version)\<close> with its \<open>onupgradeneeded\<close> handler. A database that
  does not exist yet is created at version 0. A requested version below the stored one is
  a \<open>VersionError\<close>; one above it runs the handler in a version-change transaction, and an
  exception in the handler aborts that transaction, leaving the databases as they were.
  Otherwise the handler does not run. A successful request yields a fresh connection.
\<close>

definition idb_open ::
  "string \<Rightarrow> nat \<Rightarrow> (IDBDatabase \<Rightarrow> world \<Rightarrow> string + world) \<Rightarrow> world
     \<Rightarrow> (string + IDBDatabase) \<times> world" where
  "idb_open nm ver upgrade w0 =
     (if ver = 0 then (Inl ''TypeError'', w0)
      else
        case next_outcome w0 of
          (Some e, w) \<Rightarrow> (Inl e, w)
        | (None, w) \<Rightarrow>
            let w1 = w\<lparr>journal := journal w @ [Open nm ver]\<rparr>;
                d = (case map_of (databases w1) nm of
                       None \<Rightarrow> \<lparr>version = 0, objectStores = []\<rparr>
                     | Some d \<Rightarrow> d);
                h = \<lparr>conn_id = connections w1, conn_name = nm\<rparr>
            in if ver < version d then (Inl ''VersionError'', w1)
               else if version d < ver then
                 (case upgrade h
                         (w1\<lparr>databases := AList.update nm (d\<lparr>version := ver\<rparr>) (databases w1),
                             journal := journal w1 @ [UpgradeNeeded nm (version d) ver]\<rparr>) of
                    Inl e \<Rightarrow> (Inl ''AbortError'', w1)
                  | Inr w2 \<Rightarrow> (Inr h, w2\<lparr>connections := Suc (connections w2)\<rparr>))
               else (Inr h, w1\<lparr>connections := Suc (connections w1)\<rparr>))"

text \<open>
  \<open>db.transaction(names, mode)\<close> raises \<open>NotFoundError\<close> when a named store does not
  exist; \<open>transaction.objectStore(name)\<close> raises it when the name is outside the scope.
\<close>

definition transaction :: "IDBDatabase \<Rightarrow> string list \<Rightarrow> mode \<Rightarrow> world \<Rightarrow> string + IDBTransaction" where
  "transaction h names m w =
     (if list_all (\<lambda>sn. objectStoreNames_contains h sn w) names
      then Inr \<lparr>tx_db = conn_name h, tx_scope = names, tx_mode = m\<rparr>
      else Inl ''NotFoundError'')"

definition objectStore :: "IDBTransaction \<Rightarrow> string \<Rightarrow> string + IDBObjectStore" where
  "objectStore tx sn =
     (if sn \<in> set (tx_scope tx) then Inr \<lparr>os_tx = tx, os_name = sn\<rparr>
      else Inl ''NotFoundError'')"

definition records_of :: "string \<Rightarrow> string \<Rightarrow> world \<Rightarrow> SavedSnapshot list" where
  "records_of dbn sn w =
     (case lookup_store dbn sn w of
        None \<Rightarrow> []
      | Some st \<Rightarrow> records st)"

definition store_records :: "IDBObjectStore \<Rightarrow> world \<Rightarrow> SavedSnapshot list" where
  "store_records os w = records_of (tx_db (os_tx os)) (os_name os) w"

text \<open>
  The four requests on an object store whose key path is \<open>id\<close>. \<open>put\<close> removes the
  record with the key of the new one and inserts the new one in key order; \<open>get\<close> yields
  the record with the key, or nothing (\<open>undefined\<close>); \<open>getAll\<close> yields the records in key
  order; \<open>delete\<close> removes the record with the key, if any.
\<close>

definition put :: "IDBObjectStore \<Rightarrow> SavedSnapshot \<Rightarrow> world \<Rightarrow> (string + unit) \<times> world" where
  "put os r w0 =
     (if tx_mode (os_tx os) = ReadOnly then (Inl ''ReadOnlyError'', w0)
      else
        case next_outcome w0 of
          (Some e, w) \<Rightarrow> (Inl e, w)
        | (None, w) \<Rightarrow>
            (Inr (),
             update_store (tx_db (os_tx os)) (os_name os)
               (\<lambda>st. st\<lparr>records := insort_key id' r (filter (\<lambda>x. id' x \<noteq> id' r) (records st))\<rparr>)
               w))"

definition get :: "IDBObjectStore \<Rightarrow> string \<Rightarrow> world \<Rightarrow> (string + SavedSnapshot option) \<times> world" where
  "get os k w0 =
     (case next_outcome w0 of
        (Some e, w) \<Rightarrow> (Inl e, w)
      | (None, w) \<Rightarrow> (Inr (find (\<lambda>x. id' x = k) (store_records os w)), w))"

definition getAll :: "IDBObjectStore \<Rightarrow> world \<Rightarrow> (string + SavedSnapshot list) \<times> world" where
  "getAll os w0 =
     (case next_outcome w0 of
        (Some e, w) \<Rightarrow> (Inl e, w)
      | (None, w) \<Rightarrow> (Inr (store_records os w), w))"

definition delete :: "IDBObjectStore \<Rightarrow> string \<Rightarrow> world \<Rightarrow> (string + unit) \<times> world" where
  "delete os k w0 =
     (if tx_mode (os_tx os) = ReadOnly then (Inl ''ReadOnlyError'', w0)
      else
        case next_outcome w0 of
          (Some e, w) \<Rightarrow> (Inl e, w)
        | (None, w) \<Rightarrow>
            (Inr (),
             update_store (tx_db (os_tx os)) (os_name os)
               (\<lambda>st. st\<lparr>records := filter (\<lambda>x. id' x \<noteq> k) (records st)\<rparr>)
               w))"


section \<open>The storage service\<close>

text \<open>
  The class \<open>StorageService\<close> has one field, the connection \<open>db\<close>, \<open>null\<close> until the first
  successful \<open>init\<close>. A promise that rejects is a result \<open>Inl\<close>: either with the engine's
  error or with the string \<open>'Database not initialized'\<close>. Every operation maps the
  service and the engine's state to a result and the new states.
\<close>

record StorageService =
  db :: "IDBDatabase option"

datatype rejection = RequestError string | NotInitialized

type_synonym state = "StorageService \<times> world"

text \<open>
  The handler of \<open>onupgradeneeded\<close> (lines 22-29): the store and its two indexes are
  created unless a store of that name exists.
\<close>

definition onupgradeneeded :: "IDBDatabase \<Rightarrow> world \<Rightarrow> string + world" where
  "onupgradeneeded h w =
     (if \<not> objectStoreNames_contains h STORE_NAME w then
        (case createObjectStore h STORE_NAME ''id'' w of
           Inl e \<Rightarrow> Inl e
         | Inr w1 \<Rightarrow>
             (case createIndex h STORE_NAME ''timestamp'' ''timestamp'' False w1 of
                Inl e \<Rightarrow> Inl e
              | Inr w2 \<Rightarrow> createIndex h STORE_NAME ''originalUrl'' ''originalUrl'' False w2))
      else Inr w)"

text \<open>
  \<open>init\<close> (lines 10-31) has a synchronous part, which returns at once when \<open>this.db\<close> is
  set and otherwise issues the open request, and the handlers that run when the engine
  has served the request: \<open>onsuccess\<close> stores the connection in \<open>this.db\<close>, \<open>onerror\<close>
  rejects. A caller that awaits \<open>init\<close> runs both parts in a row.
\<close>

datatype init_phase = Resolved | Pending

definition init_begin :: "StorageService \<Rightarrow> init_phase" where
  "init_begin svc = (if db svc \<noteq> None then Resolved else Pending)"

definition init_settle :: "init_phase \<Rightarrow> state \<Rightarrow> (rejection + unit) \<times> state" where
  "init_settle ph s =
     (case ph of
        Resolved \<Rightarrow> (Inr (), s)
      | Pending \<Rightarrow>
          (case idb_open DB_NAME DB_VERSION onupgradeneeded (snd s) of
             (Inl e, w) \<Rightarrow> (Inl (RequestError e), fst s, w)
           | (Inr h, w) \<Rightarrow> (Inr (), (fst s)\<lparr>db := Some h\<rparr>, w)))"

definition init :: "state \<Rightarrow> (rejection + unit) \<times> state" where
  "init s = init_settle (init_begin (fst s)) s"

definition saveSnapshot :: "SavedSnapshot \<Rightarrow> state \<Rightarrow> (rejection + unit) \<times> state" where
  "saveSnapshot snapshot s =
     (case init s of
        (Inl e, s1) \<Rightarrow> (Inl e, s1)
      | (Inr _, svc, w) \<Rightarrow>
          (case db svc of
             None \<Rightarrow> (Inl NotInitialized, svc, w)
           | Some h \<Rightarrow>
               (case transaction h [STORE_NAME] ReadWrite w of
                  Inl e \<Rightarrow> (Inl (RequestError e), svc, w)
                | Inr tx \<Rightarrow>
                    (case objectStore tx STORE_NAME of
                       Inl e \<Rightarrow> (Inl (RequestError e), svc, w)
                     | Inr store \<Rightarrow>
                         (case put store snapshot w of
                            (Inl e, w') \<Rightarrow> (Inl (RequestError e), svc, w')
                          | (Inr _, w') \<Rightarrow> (Inr (), svc, w'))))))"

definition getAllSnapshots :: "state \<Rightarrow> (rejection + SavedSnapshot list) \<times> state" where
  "getAllSnapshots s =
     (case init s of
        (Inl e, s1) \<Rightarrow> (Inl e, s1)
      | (Inr _, svc, w) \<Rightarrow>
          (case db svc of
             None \<Rightarrow> (Inl NotInitialized, svc, w)
           | Some h \<Rightarrow>
               (case transaction h [STORE_NAME] ReadOnly w of
                  Inl e \<Rightarrow> (Inl (RequestError e), svc, w)
                | Inr tx \<Rightarrow>
                    (case objectStore tx STORE_NAME of
                       Inl e \<Rightarrow> (Inl (RequestError e), svc, w)
                     | Inr store \<Rightarrow>
                         (case getAll store w of
                            (Inl e, w') \<Rightarrow> (Inl (RequestError e), svc, w')
                          | (Inr results, w') \<Rightarrow>
                              (Inr (sort_key (\<lambda>a. - savedAt a) results), svc, w'))))))"

definition getSnapshot :: "string \<Rightarrow> state \<Rightarrow> (rejection + SavedSnapshot option) \<times> state" where
  "getSnapshot k s =
     (case init s of
        (Inl e, s1) \<Rightarrow> (Inl e, s1)
      | (Inr _, svc, w) \<Rightarrow>
          (case db svc of
             None \<Rightarrow> (Inl NotInitialized, svc, w)
           | Some h \<Rightarrow>
               (case transaction h [STORE_NAME] ReadOnly w of
                  Inl e \<Rightarrow> (Inl (RequestError e), svc, w)
                | Inr tx \<Rightarrow>
                    (case objectStore tx STORE_NAME of
                       Inl e \<Rightarrow> (Inl (RequestError e), svc, w)
                     | Inr store \<Rightarrow>
                         (case get store k w of
                            (Inl e, w') \<Rightarrow> (Inl (RequestError e), svc, w')
                          | (Inr result, w') \<Rightarrow> (Inr result, svc, w'))))))"

definition deleteSnapshot :: "string \<Rightarrow> state \<Rightarrow> (rejection + unit) \<times> state" where
  "deleteSnapshot k s =
     (case init s of
        (Inl e, s1) \<Rightarrow> (Inl e, s1)
      | (Inr _, svc, w) \<Rightarrow>
          (case db svc of
             None \<Rightarrow> (Inl NotInitialized, svc, w)
           | Some h \<Rightarrow>
               (case transaction h [STORE_NAME] ReadWrite w of
                  Inl e \<Rightarrow> (Inl (RequestError e), svc, w)
                | Inr tx \<Rightarrow>
                    (case objectStore tx STORE_NAME of
                       Inl e \<Rightarrow> (Inl (RequestError e), svc, w)
                     | Inr store \<Rightarrow>
                         (case delete store k w of
                            (Inl e, w') \<Rightarrow> (Inl (RequestError e), svc, w')
                          | (Inr _, w') \<Rightarrow> (Inr (), svc, w'))))))"


text \<open>
  Two calls of \<open>init\<close> made before the engine has served either open request, as when
  two operations of the service are started without awaiting the first. Both callers run
  the synchronous part against the same service, so both read the same \<open>this.db\<close>; the
  engine then serves the requests one after the other, in the order they were made, and
  fires their handlers. A caller resumes right after its own handler: the result of each
  caller is paired with the connection it then finds in \<open>this.db\<close>.
\<close>

definition init_concurrent ::
  "state \<Rightarrow> ((rejection + unit) \<times> IDBDatabase option) \<times>
             ((rejection + unit) \<times> IDBDatabase option) \<times> state" where
  "init_concurrent s =
     (let phA = init_begin (fst s);
          phB = init_begin (fst s);
          (rA, sA) = init_settle phA s;
          (rB, sB) = init_settle phB sA
      in ((rA, db (fst sA)), (rB, db (fst sB)), sB))"

text \<open>The number of open requests the engine has served.\<close>

definition open_requests :: "world \<Rightarrow> nat" where
  "open_requests w =
     length (filter (\<lambda>e. case e of Open _ _ \<Rightarrow> True | _ \<Rightarrow> False) (journal w))"


section \<open>Persisted contents and well-behaved states\<close>

text \<open>
  \<open>stored\<close> is what the store \<open>snapshots\<close> of the database \<open>OmniDashDB\<close> holds, the empty
  list while the store does not exist. The service is \<open>attached\<close> when the connection it
  holds, if any, is one to \<open>OmniDashDB\<close>: \<open>init\<close> opens no other database.
\<close>

definition stored :: "world \<Rightarrow> SavedSnapshot list" where
  "stored w = records_of DB_NAME STORE_NAME w"

definition attached :: "StorageService \<Rightarrow> bool" where
  "attached svc = (case db svc of None \<Rightarrow> True | Some h \<Rightarrow> conn_name h = DB_NAME)"

text \<open>
  The order the engine keeps the records of a store in: ascending by key, one record per
  key.
\<close>

definition key_ordered :: "SavedSnapshot list \<Rightarrow> bool" where
  "key_ordered rs = (sorted (map id' rs) \<and> distinct (map id' rs))"

text \<open>The schema that \<open>onupgradeneeded\<close> creates: key path \<open>id\<close> and two non-unique indexes.\<close>

definition snapshots_schema :: object_store where
  "snapshots_schema =
     \<lparr>keyPath = ''id'',
      indexes = [(''timestamp'', ''timestamp'', False), (''originalUrl'', ''originalUrl'', False)],
      records = []\<rparr>"

text \<open>What the journal shows of one run of the creation sequence on a new database.\<close>

definition creation_events :: "event list" where
  "creation_events =
     [UpgradeNeeded DB_NAME 0 DB_VERSION,
      CreateObjectStore DB_NAME STORE_NAME ''id'',
      CreateIndex DB_NAME STORE_NAME ''timestamp'' ''timestamp'' False,
      CreateIndex DB_NAME STORE_NAME ''originalUrl'' ''originalUrl'' False]"

text \<open>
  A state is \<open>ready\<close> when nothing stands in the way of the next operation: the engine
  refuses no request, and the database either does not exist yet (and no connection is
  held) or is at the service's version with the store in place.
\<close>

definition ready :: "state \<Rightarrow> bool" where
  "ready s =
     (attached (fst s) \<and> list_all (\<lambda>f. f = None) (faults (snd s)) \<and>
      (case map_of (databases (snd s)) DB_NAME of
         None \<Rightarrow> db (fst s) = None
       | Some d \<Rightarrow> version d = DB_VERSION \<and> map_of (objectStores d) STORE_NAME \<noteq> None))"

text \<open>
  A service before its first call, in a browser profile without any database, and a record
  to store.
\<close>

definition fresh :: state where
  "fresh = (\<lparr>db = None\<rparr>, \<lparr>databases = [], connections = 0, journal = [], faults = []\<rparr>)"

definition snap_a :: SavedSnapshot where
  "snap_a = \<lparr>id' = ''a'', originalUrl = ''x'', timestamp = ''20240101000000'', savedAt = 1,
             title = ''first'', status = ''200''\<rparr>"

text \<open>
  A second version of that record (same key, every other field different), two more records,
  and a state in which the store holds three records and the connection is open.
\<close>

definition snap_a2 :: SavedSnapshot where
  "snap_a2 = \<lparr>id' = ''a'', originalUrl = ''y'', timestamp = ''20240202000000'', savedAt = 2,
              title = ''second'', status = ''200''\<rparr>"

definition snap_b :: SavedSnapshot where
  "snap_b = \<lparr>id' = ''b'', originalUrl = ''z'', timestamp = ''20240303000000'', savedAt = 5,
             title = ''third'', status = ''200''\<rparr>"

definition snap_c :: SavedSnapshot where
  "snap_c = \<lparr>id' = ''c'', originalUrl = ''u'', timestamp = ''20240404000000'', savedAt = 3,
             title = ''fourth'', status = ''404''\<rparr>"

definition populated :: state where
  "populated =
     (\<lparr>db = Some \<lparr>conn_id = 0, conn_name = DB_NAME\<rparr>\<rparr>,
      \<lparr>databases =
         [(DB_NAME,
           \<lparr>version = DB_VERSION,
            objectStores = [(STORE_NAME, snapshots_schema\<lparr>records := [snap_a, snap_b, snap_c]\<rparr>)]\<rparr>)],
       connections = 1,
       journal = [],
       faults = []\<rparr>)"

text \<open>A new instance of the service (a later page load) over the same engine state.\<close>

definition reopened :: state where
  "reopened = (\<lparr>db = None\<rparr>, snd populated)"



section \<open>The Wayback client\<close>

text \<open>
  \<open>waybackService.ts\<close> reads the settings from \<open>localStorage\<close>, parses JSON and calls
  \<open>fetch\<close>. A JSON value as \<open>JSON.parse\<close> yields it; \<open>undefined\<close>, which is not a JSON value,
  is \<open>None\<close> of \<open>json option\<close>.
\<close>

datatype json =
    JNull
  | JBool bool
  | JNum real
  | JStr string
  | JArr "json list"
  | JObj "(string \<times> json) list"

text \<open>
  What the source throws or lets through. The errors it constructs carry what their
  message is built from.
\<close>

datatype js_error =
    TypeError
  | SyntaxError
  | URIError
  | SecurityError
  | AvailabilityCheckFailed nat
  | CDXFetchFailed nat
  | NonJSONResponse
  | MissingCredentials
  | CaptureFailedHTML nat
  | CaptureFailed string
  | CaptureFailedStatus nat

record request =
  req_method :: string
  req_url :: string
  req_headers :: "(string \<times> string) list"
  req_body :: "string option"

text \<open>
  A response: \<open>res.ok\<close>, \<open>res.status\<close>, \<open>res.headers.get("content-type")\<close> and the body,
  \<open>None\<close> when the body cannot be read. \<open>fetch\<close> rejects on a network error.
\<close>

record response =
  ok :: bool
  status' :: nat
  content_type :: "string option"
  body :: "string option"

datatype fetch_result = NetworkError | Response response

text \<open>
  Modelled from the spec: \<open>CDXRecord\<close> is declared in \<open>types.ts\<close>, which is not among the
  sources; its fields are those of the object literal at lines 53-61 of
  \<open>waybackService.ts\<close> and of the history query of the spec. A field holds what \<open>row[i]\<close>
  yields, \<open>None\<close> for \<open>undefined\<close>. The fields \<open>timestamp\<close> and \<open>length\<close> are written with a
  prime.
\<close>

record CDXRecord =
  urlkey :: "json option"
  timestamp' :: "json option"
  original :: "json option"
  mimetype :: "json option"
  statuscode :: "json option"
  digest :: "json option"
  length' :: "json option"

record save_result =
  saved :: bool
  message :: string

text \<open>
  Modelled from the spec: the three addresses of \<open>API_BASE\<close> are declared in
  \<open>constants.ts\<close>, which is not among the sources; they are parameters of the environment.
  The environment also holds what the browser provides: \<open>localStorage.getItem\<close>,
  \<open>JSON.parse\<close> (\<open>None\<close> for a \<open>SyntaxError\<close>), \<open>encodeURIComponent\<close> (\<open>None\<close> for a
  \<open>URIError\<close>) and \<open>fetch\<close>.
\<close>

record env =
  localStorage_getItem :: "string \<Rightarrow> js_error + string option"
  JSON_parse :: "string \<Rightarrow> json option"
  encodeURIComponent :: "string \<Rightarrow> string option"
  fetch :: "request \<Rightarrow> fetch_result"
  WAYBACK_AVAILABLE :: string
  CDX :: string
  WAYBACK_SAVE :: string

text \<open>The truth value JavaScript gives a value in a condition.\<close>

fun truthy :: "json option \<Rightarrow> bool" where
  "truthy None = False"
| "truthy (Some JNull) = False"
| "truthy (Some (JBool b)) = b"
| "truthy (Some (JNum n)) = (n \<noteq> 0)"
| "truthy (Some (JStr s)) = (s \<noteq> [])"
| "truthy (Some (JArr xs)) = True"
| "truthy (Some (JObj kvs)) = True"

text \<open>
  \<open>v.demoMode\<close>: a \<open>TypeError\<close> on \<open>null\<close>, the property of an object, \<open>undefined\<close> on
  anything else (no other JSON value has a property of that name).
\<close>

fun demoMode_of :: "json \<Rightarrow> js_error + json option" where
  "demoMode_of JNull = Inl TypeError"
| "demoMode_of (JObj kvs) = Inr (map_of kvs ''demoMode'')"
| "demoMode_of v = Inr None"

text \<open>
  \<open>row[i]\<close> for \<open>i\<close> from 0 to 6: a \<open>TypeError\<close> on \<open>null\<close>, the element of an array, the
  character of a string, the property named by the digit of an object, \<open>undefined\<close> out of
  range and on numbers and booleans.
\<close>

fun index :: "json \<Rightarrow> nat \<Rightarrow> js_error + json option" where
  "index JNull i = Inl TypeError"
| "index (JArr xs) i = Inr (if i < length xs then Some (xs ! i) else None)"
| "index (JStr s) i = Inr (if i < length s then Some (JStr [s ! i]) else None)"
| "index (JObj kvs) i = Inr (map_of kvs [char_of (48 + i)])"
| "index v i = Inr None"

text \<open>\<open>s.includes(t)\<close>; \<open>includes\<close> is a keyword of Isabelle.\<close>

fun str_includes :: "string \<Rightarrow> string \<Rightarrow> bool" where
  "str_includes [] t = (t = [])"
| "str_includes (c # s) t = (take (length t) (c # s) = t \<or> str_includes s t)"

definition res_text :: "response \<Rightarrow> js_error + string" where
  "res_text res = (case body res of None \<Rightarrow> Inl TypeError | Some t \<Rightarrow> Inr t)"

definition res_json :: "env \<Rightarrow> response \<Rightarrow> js_error + json" where
  "res_json env res =
     (case body res of
        None \<Rightarrow> Inl TypeError
      | Some t \<Rightarrow> (case JSON_parse env t of None \<Rightarrow> Inl SyntaxError | Some v \<Rightarrow> Inr v))"

text \<open>
  \<open>isDemoMode\<close> (lines 5-13). The result is the value of the property, which need not be a
  boolean; every exception gives \<open>false\<close>.
\<close>

definition isDemoMode :: "env \<Rightarrow> json option" where
  "isDemoMode env =
     (case localStorage_getItem env ''omnidash_settings'' of
        Inl e \<Rightarrow> Some (JBool False)
      | Inr None \<Rightarrow> Some (JBool False)
      | Inr (Some settings) \<Rightarrow>
          if settings \<noteq> [] then
            (case JSON_parse env settings of
               None \<Rightarrow> Some (JBool False)
             | Some v \<Rightarrow>
                 (case demoMode_of v of
                    Inl e \<Rightarrow> Some (JBool False)
                  | Inr d \<Rightarrow> d))
          else Some (JBool False))"

text \<open>
  The mock generators of \<open>mockService.ts\<close>. \<open>n.toString()\<close> gives the decimal digits of a
  natural number, and \<open>s.padStart(n, p)\<close> fills \<open>s\<close> from the left with repetitions of \<open>p\<close>
  up to the length \<open>n\<close>. \<open>Array.from({ length: 15 }).map((_, i) => ...)\<close> maps over the
  indices from 0 to 14.
\<close>

fun toString :: "nat \<Rightarrow> string" where
  "toString n =
     (if n < 10 then [char_of (48 + n)]
      else toString (n div 10) @ [char_of (48 + n mod 10)])"

declare toString.simps [simp del]

definition padStart :: "nat \<Rightarrow> string \<Rightarrow> string \<Rightarrow> string" where
  "padStart n p s =
     (if n \<le> length s \<or> p = [] then s
      else take (n - length s) (concat (replicate (n - length s) p)) @ s)"

definition getMockAvailability :: "string \<Rightarrow> json" where
  "getMockAvailability url =
     JObj
       [(''url'', JStr url),
        (''archived_snapshots'',
         JObj
           [(''closest'',
             JObj
               [(''available'', JBool True),
                (''status'', JStr ''200''),
                (''timestamp'', JStr ''20231015120000''),
                (''url'', JStr (''http://web.archive.org/web/20231015120000/'' @ url))])])]"

definition getMockCDX :: "string \<Rightarrow> CDXRecord list" where
  "getMockCDX url =
     map (\<lambda>i.
            \<lparr>urlkey = Some (JStr url),
             timestamp' =
               Some (JStr (''2023'' @ padStart 2 ''0'' (toString (i mod 12 + 1)) @ ''01120000'')),
             original = Some (JStr url),
             mimetype = Some (JStr ''text/html''),
             statuscode = Some (JStr ''200''),
             digest = Some (JStr ''3I42H3S6NNFQ2MSVX7XZKYAYSCX5QBYJ''),
             length' = Some (JStr ''1234'')\<rparr>)
         [0..<15]"

text \<open>
  The operations return the outcome of the promise (\<open>Inl\<close> when it rejects) and the requests
  handed to \<open>fetch\<close>. The delays of \<open>setTimeout\<close> in demo mode are not modelled.
\<close>

definition get_request :: "string \<Rightarrow> request" where
  "get_request u = \<lparr>req_method = ''GET'', req_url = u, req_headers = [], req_body = None\<rparr>"

text \<open>The body of the \<open>try\<close> of \<open>checkAvailability\<close> (lines 21-25).\<close>

definition checkAvailability_try :: "env \<Rightarrow> string \<Rightarrow> (js_error + json) \<times> request list" where
  "checkAvailability_try env url =
     (case encodeURIComponent env url of
        None \<Rightarrow> (Inl URIError, [])
      | Some u \<Rightarrow>
          let req = get_request (WAYBACK_AVAILABLE env @ ''?url='' @ u) in
          (case fetch env req of
             NetworkError \<Rightarrow> (Inl TypeError, [req])
           | Response res \<Rightarrow>
               if \<not> ok res then (Inl (AvailabilityCheckFailed (status' res)), [req])
               else (res_json env res, [req])))"

definition checkAvailability :: "env \<Rightarrow> string \<Rightarrow> (js_error + json) \<times> request list" where
  "checkAvailability env url =
     (if truthy (isDemoMode env) then (Inr (getMockAvailability url), [])
      else
        (case checkAvailability_try env url of
           (Inr v, reqs) \<Rightarrow> (Inr v, reqs)
         | (Inl error, reqs) \<Rightarrow> (Inr (getMockAvailability url), reqs)))"

text \<open>
  \<open>json.slice(1).map(row => ...)\<close> (lines 53-61): the first row that raises ends the
  mapping.
\<close>

definition cdx_of_row :: "json \<Rightarrow> js_error + CDXRecord" where
  "cdx_of_row row =
     (case index row 0 of Inl e \<Rightarrow> Inl e | Inr f0 \<Rightarrow>
      case index row 1 of Inl e \<Rightarrow> Inl e | Inr f1 \<Rightarrow>
      case index row 2 of Inl e \<Rightarrow> Inl e | Inr f2 \<Rightarrow>
      case index row 3 of Inl e \<Rightarrow> Inl e | Inr f3 \<Rightarrow>
      case index row 4 of Inl e \<Rightarrow> Inl e | Inr f4 \<Rightarrow>
      case index row 5 of Inl e \<Rightarrow> Inl e | Inr f5 \<Rightarrow>
      case index row 6 of Inl e \<Rightarrow> Inl e | Inr f6 \<Rightarrow>
        Inr \<lparr>urlkey = f0, timestamp' = f1, original = f2, mimetype = f3, statuscode = f4,
             digest = f5, length' = f6\<rparr>)"

fun map_rows :: "json list \<Rightarrow> js_error + CDXRecord list" where
  "map_rows [] = Inr []"
| "map_rows (row # rows) =
     (case cdx_of_row row of
        Inl e \<Rightarrow> Inl e
      | Inr r \<Rightarrow> (case map_rows rows of Inl e \<Rightarrow> Inl e | Inr rs \<Rightarrow> Inr (r # rs)))"

text \<open>The body of the \<open>try\<close> of \<open>fetchCDX\<close> (lines 38-63).\<close>

definition fetchCDX_try :: "env \<Rightarrow> string \<Rightarrow> (js_error + CDXRecord list) \<times> request list" where
  "fetchCDX_try env url =
     (case encodeURIComponent env url of
        None \<Rightarrow> (Inl URIError, [])
      | Some u \<Rightarrow>
          let api = CDX env @ ''?url='' @ u @
                ''&output=json&limit=100&fl=urlkey,timestamp,original,mimetype,statuscode,digest,length'';
              req = get_request api in
          (case fetch env req of
             NetworkError \<Rightarrow> (Inl TypeError, [req])
           | Response res \<Rightarrow>
               if \<not> ok res then (Inl (CDXFetchFailed (status' res)), [req])
               else if (case content_type res of
                          None \<Rightarrow> True
                        | Some contentType \<Rightarrow>
                            contentType = [] \<or> \<not> str_includes contentType ''application/json'')
               then
                 (case res_text res of
                    Inl e \<Rightarrow> (Inl e, [req])
                  | Inr text \<Rightarrow>
                      if length text = 0 then (Inr [], [req])
                      else (Inl NonJSONResponse, [req]))
               else
                 (case res_json env res of
                    Inl e \<Rightarrow> (Inl e, [req])
                  | Inr (JArr rows) \<Rightarrow>
                      if length rows > 1 then (map_rows (drop 1 rows), [req])
                      else (Inr [], [req])
                  | Inr v \<Rightarrow> (Inr [], [req]))))"

definition fetchCDX :: "env \<Rightarrow> string \<Rightarrow> (js_error + CDXRecord list) \<times> request list" where
  "fetchCDX env url =
     (if truthy (isDemoMode env) then (Inr (getMockCDX url), [])
      else
        (case fetchCDX_try env url of
           (Inr v, reqs) \<Rightarrow> (Inr v, reqs)
         | (Inl error, reqs) \<Rightarrow> (Inr (getMockCDX url), reqs)))"

text \<open>
  \<open>savePageNow\<close> (lines 70-102). The \<open>catch\<close> rethrows what it caught, so the \<open>try\<close> is the
  code in it.
\<close>

definition savePageNow ::
  "env \<Rightarrow> string \<Rightarrow> string \<Rightarrow> string \<Rightarrow> (js_error + save_result) \<times> request list" where
  "savePageNow env url accessKey secretKey =
     (if truthy (isDemoMode env) then
        (Inr \<lparr>saved = True, message = ''Mock Mode: URL successfully queued for capture.''\<rparr>, [])
      else if accessKey = [] \<or> secretKey = [] then (Inl MissingCredentials, [])
      else
        (case encodeURIComponent env url of
           None \<Rightarrow> (Inl URIError, [])
         | Some u \<Rightarrow>
             let req =
               \<lparr>req_method = ''POST'',
                req_url = WAYBACK_SAVE env,
                req_headers =
                  [(''Accept'', ''application/json''),
                   (''Authorization'', ''LOW '' @ accessKey @ '':'' @ secretKey),
                   (''Content-Type'', ''application/x-www-form-urlencoded'')],
                req_body = Some (''url='' @ u @ ''&capture_all=1'')\<rparr> in
             (case fetch env req of
                NetworkError \<Rightarrow> (Inl TypeError, [req])
              | Response res \<Rightarrow>
                  if ok res then
                    (Inr \<lparr>saved = True, message = ''Capture request submitted.''\<rparr>, [req])
                  else
                    (case res_text res of
                       Inl e \<Rightarrow> (Inl e, [req])
                     | Inr text \<Rightarrow>
                         if str_includes text ''<!DOCTYPE html>'' then
                           (Inl (CaptureFailedHTML (status' res)), [req])
                         else if text \<noteq> [] then (Inl (CaptureFailed text), [req])
                         else (Inl (CaptureFailedStatus (status' res)), [req])))))"

text \<open>
  When the \<open>try\<close> of each reading operation raises, in terms of what the environment
  answers: the url cannot be encoded, the network fails, the status is not OK, the body
  cannot be read or parsed; for \<open>fetchCDX\<close> also a body that is not empty under a content
  type that is not JSON, and a row that is \<open>null\<close>. \<open>non_json\<close> is the test of line 45,
  \<open>cdx_request\<close> the request of lines 38-39, and \<open>empty_non_json\<close> the case of line 47: an
  OK response that is not JSON and whose body is empty.
\<close>

definition availability_failure :: "env \<Rightarrow> string \<Rightarrow> bool" where
  "availability_failure env url =
     (case encodeURIComponent env url of
        None \<Rightarrow> True
      | Some u \<Rightarrow>
          (case fetch env (get_request (WAYBACK_AVAILABLE env @ ''?url='' @ u)) of
             NetworkError \<Rightarrow> True
           | Response res \<Rightarrow>
               \<not> ok res \<or>
               (case body res of None \<Rightarrow> True | Some t \<Rightarrow> JSON_parse env t = None)))"

definition non_json :: "response \<Rightarrow> bool" where
  "non_json res =
     (case content_type res of
        None \<Rightarrow> True
      | Some contentType \<Rightarrow> contentType = [] \<or> \<not> str_includes contentType ''application/json'')"

definition cdx_request :: "env \<Rightarrow> string \<Rightarrow> request" where
  "cdx_request env u =
     get_request (CDX env @ ''?url='' @ u @
       ''&output=json&limit=100&fl=urlkey,timestamp,original,mimetype,statuscode,digest,length'')"

definition cdx_failure :: "env \<Rightarrow> string \<Rightarrow> bool" where
  "cdx_failure env url =
     (case encodeURIComponent env url of
        None \<Rightarrow> True
      | Some u \<Rightarrow>
          (case fetch env (cdx_request env u) of
             NetworkError \<Rightarrow> True
           | Response res \<Rightarrow>
               \<not> ok res \<or>
               (case body res of
                  None \<Rightarrow> True
                | Some t \<Rightarrow>
                    if non_json res then t \<noteq> []
                    else
                      (case JSON_parse env t of
                         None \<Rightarrow> True
                       | Some (JArr rows) \<Rightarrow> 1 < length rows \<and> isl (map_rows (drop 1 rows))
                       | Some v \<Rightarrow> False))))"

definition empty_non_json :: "env \<Rightarrow> string \<Rightarrow> bool" where
  "empty_non_json env url =
     (case encodeURIComponent env url of
        None \<Rightarrow> False
      | Some u \<Rightarrow>
          (case fetch env (cdx_request env u) of
             NetworkError \<Rightarrow> False
           | Response res \<Rightarrow> ok res \<and> non_json res \<and> body res = Some []))"

text \<open>
  Two environments to run the client in. In \<open>live_env\<close> no settings are stored; the host
  \<open>down.example\<close> is unreachable, \<open>empty.example\<close> answers 200 with an empty plain-text
  body, every other host answers 503. In \<open>demo_env\<close> the stored settings switch demo mode
  on. The urls used consist of characters that \<open>encodeURIComponent\<close> leaves as they are;
  the addresses of the interface are placeholders.
\<close>

definition demo_settings :: string where
  \<open>demo_settings = ''{"demoMode":true}''\<close>

definition live_env :: env where
  "live_env =
     \<lparr>localStorage_getItem = (\<lambda>k. Inr None),
      JSON_parse = (\<lambda>t. if t = ''[]'' then Some (JArr []) else None),
      encodeURIComponent = Some,
      fetch = (\<lambda>req.
        if str_includes (req_url req) ''down.example'' then NetworkError
        else if str_includes (req_url req) ''empty.example'' then
          Response \<lparr>ok = True, status' = 200, content_type = Some ''text/plain'', body = Some ''''\<rparr>
        else
          Response \<lparr>ok = False, status' = 503, content_type = None,
                    body = Some ''Service Unavailable''\<rparr>),
      WAYBACK_AVAILABLE = ''/wayback/available'',
      CDX = ''/cdx'',
      WAYBACK_SAVE = ''/save''\<rparr>"

definition demo_env :: env where
  "demo_env =
     live_env
       \<lparr>localStorage_getItem :=
          (\<lambda>k. Inr (if k = ''omnidash_settings'' then Some demo_settings else None)),
        JSON_parse :=
          (\<lambda>t. if t = demo_settings then Some (JObj [(''demoMode'', JBool True)]) else None)\<rparr>"


section \<open>Properties of the engine\<close>

lemma lookup_store_update_store:
  "lookup_store dbn' sn' (update_store dbn sn f w) =
     (if dbn' = dbn \<and> sn' = sn then map_option f (lookup_store dbn sn w)
      else lookup_store dbn' sn' w)"
  by (auto simp: lookup_store_def update_store_def map_of_map_entry split: option.splits)

lemma lookup_store_journal [simp]:
  "lookup_store dbn sn (w\<lparr>journal := j\<rparr>) = lookup_store dbn sn w"
  by (simp add: lookup_store_def)

lemma lookup_store_connections [simp]:
  "lookup_store dbn sn (w\<lparr>connections := c\<rparr>) = lookup_store dbn sn w"
  by (simp add: lookup_store_def)

lemma lookup_store_faults [simp]:
  "lookup_store dbn sn (w\<lparr>faults := c\<rparr>) = lookup_store dbn sn w"
  by (simp add: lookup_store_def)

lemma next_outcome_lookup:
  "next_outcome w = (f, w') \<Longrightarrow> lookup_store dbn sn w' = lookup_store dbn sn w"
  by (auto simp: next_outcome_def split: list.splits)

lemma next_outcome_databases:
  "next_outcome w = (f, w') \<Longrightarrow> databases w' = databases w"
  by (auto simp: next_outcome_def split: list.splits)

lemma createObjectStore_lookup:
  "createObjectStore h sn kp w = Inr w' \<Longrightarrow>
     lookup_store dbn' sn' w' =
       (if dbn' = conn_name h \<and> sn' = sn \<and> map_of (databases w) dbn' \<noteq> None
        then Some \<lparr>keyPath = kp, indexes = [], records = []\<rparr>
        else lookup_store dbn' sn' w)"
  by (auto simp: createObjectStore_def objectStoreNames_contains_def lookup_store_def
        map_of_map_entry map_add_def split: if_splits option.splits)

lemma createIndex_lookup:
  "createIndex h sn ixn kp u w = Inr w' \<Longrightarrow>
     map_option records (lookup_store dbn' sn' w') = map_option records (lookup_store dbn' sn' w)"
  by (auto simp: createIndex_def lookup_store_update_store split: if_splits option.splits)

lemma onupgradeneeded_records:
  assumes "onupgradeneeded h w = Inr w'"
  shows "map_option records (lookup_store dbn sn w') = map_option records (lookup_store dbn sn w)
         \<or> (lookup_store dbn sn w = None \<and> map_option records (lookup_store dbn sn w') = Some [])"
proof (cases "objectStoreNames_contains h STORE_NAME w")
  case True
  with assms show ?thesis by (simp add: onupgradeneeded_def)
next
  case False
  with assms obtain w1 w2 where
    c: "createObjectStore h STORE_NAME ''id'' w = Inr w1" and
    i1: "createIndex h STORE_NAME ''timestamp'' ''timestamp'' False w1 = Inr w2" and
    i2: "createIndex h STORE_NAME ''originalUrl'' ''originalUrl'' False w2 = Inr w'"
    by (auto simp: onupgradeneeded_def split: sum.splits)
  have "map_option records (lookup_store dbn sn w') = map_option records (lookup_store dbn sn w1)"
    using createIndex_lookup[OF i1] createIndex_lookup[OF i2] by simp
  moreover have "lookup_store dbn sn w1 = lookup_store dbn sn w \<or>
      (lookup_store dbn sn w = None \<and> map_option records (lookup_store dbn sn w1) = Some [])"
    using createObjectStore_lookup[OF c, of dbn sn] False
    by (auto simp: objectStoreNames_contains_def)
  ultimately show ?thesis by auto
qed

lemma onupgradeneeded_records_of:
  "onupgradeneeded h w = Inr w' \<Longrightarrow> records_of dbn sn w' = records_of dbn sn w"
  using onupgradeneeded_records[of h w w' dbn sn]
  by (auto simp: records_of_def split: option.splits)

lemma records_of_fields [simp]:
  "records_of dbn sn (w\<lparr>journal := j\<rparr>) = records_of dbn sn w"
  "records_of dbn sn (w\<lparr>connections := c\<rparr>) = records_of dbn sn w"
  "records_of dbn sn (w\<lparr>faults := fs\<rparr>) = records_of dbn sn w"
  by (simp_all add: records_of_def)

lemma records_of_set_version:
  "map_of (databases w) nm = Some d \<Longrightarrow>
     records_of dbn sn (w\<lparr>databases := AList.update nm (d\<lparr>version := ver\<rparr>) (databases w)\<rparr>)
       = records_of dbn sn w"
  "map_of (databases w) nm = None \<Longrightarrow>
     records_of dbn sn
       (w\<lparr>databases := AList.update nm \<lparr>version = ver, objectStores = []\<rparr> (databases w)\<rparr>)
       = records_of dbn sn w"
  by (auto simp: records_of_def lookup_store_def update_conv' split: option.splits)

lemma next_outcome_records_of:
  "next_outcome w = (f, w') \<Longrightarrow> records_of dbn sn w' = records_of dbn sn w"
  by (auto simp: next_outcome_def split: list.splits)

lemma idb_open_records_of:
  assumes "idb_open nm ver onupgradeneeded w = (res, w')"
  shows "records_of dbn sn w' = records_of dbn sn w"
  using assms
  by (auto simp: idb_open_def Let_def records_of_set_version next_outcome_records_of
        onupgradeneeded_records_of
        split: if_splits prod.splits option.splits sum.splits)

lemma idb_open_conn_name:
  "idb_open nm ver up w = (Inr h, w') \<Longrightarrow> conn_name h = nm"
  by (auto simp: idb_open_def Let_def split: if_splits prod.splits option.splits sum.splits)

lemma init_open: "db (fst s) \<noteq> None \<Longrightarrow> init s = (Inr (), s)"
  by (simp add: init_def init_begin_def init_settle_def)

lemma init_records_of:
  "init s = (res, s') \<Longrightarrow> records_of dbn sn (snd s') = records_of dbn sn (snd s)"
  by (auto simp: init_def init_begin_def init_settle_def idb_open_records_of
        split: if_splits prod.splits sum.splits)

lemma init_attached:
  "init s = (res, s') \<Longrightarrow> attached (fst s) \<Longrightarrow> attached (fst s')"
  by (auto simp: init_def init_begin_def init_settle_def attached_def
        dest: idb_open_conn_name split: if_splits prod.splits sum.splits)

lemma init_Inr_db:
  "init s = (Inr u, s') \<Longrightarrow> db (fst s') \<noteq> None"
  by (auto simp: init_def init_begin_def init_settle_def
        split: if_splits prod.splits sum.splits)

lemma transaction_Inr:
  "transaction h names m w = Inr tx \<Longrightarrow>
     tx = \<lparr>tx_db = conn_name h, tx_scope = names, tx_mode = m\<rparr> \<and>
     (\<forall>sn \<in> set names. lookup_store (conn_name h) sn w \<noteq> None)"
  by (auto simp: transaction_def objectStoreNames_contains_def list_all_iff split: if_splits)

lemma objectStore_Inr:
  "objectStore tx sn = Inr os \<Longrightarrow> os = \<lparr>os_tx = tx, os_name = sn\<rparr>"
  by (auto simp: objectStore_def split: if_splits)

lemma records_of_update_store:
  "lookup_store dbn sn w = Some st \<Longrightarrow>
     records_of dbn sn (update_store dbn sn g w) = records (g st)"
  by (simp add: records_of_def lookup_store_update_store)

lemma put_Inr:
  assumes "put os r w = (Inr u, w')"
    and "lookup_store (tx_db (os_tx os)) (os_name os) w \<noteq> None"
  shows "records_of (tx_db (os_tx os)) (os_name os) w' =
           insort_key id' r (filter (\<lambda>x. id' x \<noteq> id' r) (records_of (tx_db (os_tx os)) (os_name os) w))"
proof -
  from assms(1) obtain w1 where n: "next_outcome w = (None, w1)"
    and w': "w' = update_store (tx_db (os_tx os)) (os_name os)
               (\<lambda>st. st\<lparr>records := insort_key id' r (filter (\<lambda>x. id' x \<noteq> id' r) (records st))\<rparr>) w1"
    by (auto simp: put_def split: if_splits prod.splits option.splits)
  from assms(2) next_outcome_lookup[OF n] obtain st where
    st: "lookup_store (tx_db (os_tx os)) (os_name os) w1 = Some st"
        "lookup_store (tx_db (os_tx os)) (os_name os) w = Some st"
    by auto
  show ?thesis
    unfolding w' records_of_update_store[OF st(1)] by (simp add: records_of_def st(2))
qed

lemma delete_Inr:
  assumes "delete os k w = (Inr u, w')"
    and "lookup_store (tx_db (os_tx os)) (os_name os) w \<noteq> None"
  shows "records_of (tx_db (os_tx os)) (os_name os) w' =
           filter (\<lambda>x. id' x \<noteq> k) (records_of (tx_db (os_tx os)) (os_name os) w)"
proof -
  from assms(1) obtain w1 where n: "next_outcome w = (None, w1)"
    and w': "w' = update_store (tx_db (os_tx os)) (os_name os)
               (\<lambda>st. st\<lparr>records := filter (\<lambda>x. id' x \<noteq> k) (records st)\<rparr>) w1"
    by (auto simp: delete_def split: if_splits prod.splits option.splits)
  from assms(2) next_outcome_lookup[OF n] obtain st where
    st: "lookup_store (tx_db (os_tx os)) (os_name os) w1 = Some st"
        "lookup_store (tx_db (os_tx os)) (os_name os) w = Some st"
    by auto
  show ?thesis
    unfolding w' records_of_update_store[OF st(1)] by (simp add: records_of_def st(2))
qed

lemma get_Inr:
  assumes "get os k w = (Inr v, w')"
  shows "v = find (\<lambda>x. id' x = k) (records_of (tx_db (os_tx os)) (os_name os) w) \<and>
         records_of dbn sn w' = records_of dbn sn w"
  using assms
  by (auto simp: get_def store_records_def next_outcome_records_of
        split: if_splits prod.splits option.splits)

lemma getAll_Inr:
  assumes "getAll os w = (Inr v, w')"
  shows "v = records_of (tx_db (os_tx os)) (os_name os) w \<and>
         records_of dbn sn w' = records_of dbn sn w"
  using assms
  by (auto simp: getAll_def store_records_def next_outcome_records_of
        split: if_splits prod.splits option.splits)

lemma saveSnapshot_Inr:
  assumes "saveSnapshot r s = (Inr u, s')" and "attached (fst s)"
  shows "stored (snd s') = insort_key id' r (filter (\<lambda>x. id' x \<noteq> id' r) (stored (snd s)))"
    and "attached (fst s')"
proof -
  from assms(1) obtain svc w h tx os w' where
    i: "init s = (Inr (), svc, w)" and h: "db svc = Some h" and
    t: "transaction h [STORE_NAME] ReadWrite w = Inr tx" and
    o: "objectStore tx STORE_NAME = Inr os" and
    p: "put os r w = (Inr (), w')" and s': "s' = (svc, w')"
    by (auto simp: saveSnapshot_def split: prod.splits sum.splits option.splits)
  from init_attached[OF i assms(2)] h have n: "conn_name h = DB_NAME" and a: "attached svc"
    by (auto simp: attached_def)
  from transaction_Inr[OF t] objectStore_Inr[OF o] n
  have os: "tx_db (os_tx os) = DB_NAME" "os_name os = STORE_NAME"
    and l: "lookup_store DB_NAME STORE_NAME w \<noteq> None" by auto
  from put_Inr[OF p] os l init_records_of[OF i, of DB_NAME STORE_NAME]
  show "stored (snd s') = insort_key id' r (filter (\<lambda>x. id' x \<noteq> id' r) (stored (snd s)))"
    by (simp add: stored_def s')
  show "attached (fst s')" using a by (simp add: s')
qed

lemma deleteSnapshot_Inr:
  assumes "deleteSnapshot k s = (Inr u, s')" and "attached (fst s)"
  shows "stored (snd s') = filter (\<lambda>x. id' x \<noteq> k) (stored (snd s))"
    and "attached (fst s')"
proof -
  from assms(1) obtain svc w h tx os w' where
    i: "init s = (Inr (), svc, w)" and h: "db svc = Some h" and
    t: "transaction h [STORE_NAME] ReadWrite w = Inr tx" and
    o: "objectStore tx STORE_NAME = Inr os" and
    p: "delete os k w = (Inr (), w')" and s': "s' = (svc, w')"
    by (auto simp: deleteSnapshot_def split: prod.splits sum.splits option.splits)
  from init_attached[OF i assms(2)] h have n: "conn_name h = DB_NAME" and a: "attached svc"
    by (auto simp: attached_def)
  from transaction_Inr[OF t] objectStore_Inr[OF o] n
  have os: "tx_db (os_tx os) = DB_NAME" "os_name os = STORE_NAME"
    and l: "lookup_store DB_NAME STORE_NAME w \<noteq> None" by auto
  from delete_Inr[OF p] os l init_records_of[OF i, of DB_NAME STORE_NAME]
  show "stored (snd s') = filter (\<lambda>x. id' x \<noteq> k) (stored (snd s))"
    by (simp add: stored_def s')
  show "attached (fst s')" using a by (simp add: s')
qed

lemma getSnapshot_Inr:
  assumes "getSnapshot k s = (Inr v, s')" and "attached (fst s)"
  shows "v = find (\<lambda>x. id' x = k) (stored (snd s))"
    and "stored (snd s') = stored (snd s)"
    and "attached (fst s')"
proof -
  from assms(1) obtain svc w h tx os w' where
    i: "init s = (Inr (), svc, w)" and h: "db svc = Some h" and
    t: "transaction h [STORE_NAME] ReadOnly w = Inr tx" and
    o: "objectStore tx STORE_NAME = Inr os" and
    p: "get os k w = (Inr v, w')" and s': "s' = (svc, w')"
    by (auto simp: getSnapshot_def split: prod.splits sum.splits option.splits)
  from init_attached[OF i assms(2)] h have n: "conn_name h = DB_NAME" and a: "attached svc"
    by (auto simp: attached_def)
  from transaction_Inr[OF t] objectStore_Inr[OF o] n
  have os: "tx_db (os_tx os) = DB_NAME" "os_name os = STORE_NAME" by auto
  from get_Inr[OF p, of DB_NAME STORE_NAME] os init_records_of[OF i, of DB_NAME STORE_NAME]
  show "v = find (\<lambda>x. id' x = k) (stored (snd s))" "stored (snd s') = stored (snd s)"
    by (simp_all add: stored_def s')
  show "attached (fst s')" using a by (simp add: s')
qed

lemma getAllSnapshots_Inr:
  assumes "getAllSnapshots s = (Inr v, s')" and "attached (fst s)"
  shows "v = sort_key (\<lambda>a. - savedAt a) (stored (snd s))"
    and "stored (snd s') = stored (snd s)"
    and "attached (fst s')"
proof -
  from assms(1) obtain svc w h tx os w' rs where
    i: "init s = (Inr (), svc, w)" and h: "db svc = Some h" and
    t: "transaction h [STORE_NAME] ReadOnly w = Inr tx" and
    o: "objectStore tx STORE_NAME = Inr os" and
    p: "getAll os w = (Inr rs, w')" and s': "s' = (svc, w')" and
    v: "v = sort_key (\<lambda>a. - savedAt a) rs"
    by (auto simp: getAllSnapshots_def split: prod.splits sum.splits option.splits)
  from init_attached[OF i assms(2)] h have n: "conn_name h = DB_NAME" and a: "attached svc"
    by (auto simp: attached_def)
  from transaction_Inr[OF t] objectStore_Inr[OF o] n
  have os: "tx_db (os_tx os) = DB_NAME" "os_name os = STORE_NAME" by auto
  from getAll_Inr[OF p, of DB_NAME STORE_NAME] os init_records_of[OF i, of DB_NAME STORE_NAME] v
  show "v = sort_key (\<lambda>a. - savedAt a) (stored (snd s))" "stored (snd s') = stored (snd s)"
    by (simp_all add: stored_def s')
  show "attached (fst s')" using a by (simp add: s')
qed


lemma onupgradeneeded_fresh:
  assumes "map_of (databases w) (conn_name h) = Some d"
    and "map_of (objectStores d) STORE_NAME = None"
  shows "\<exists>w'. onupgradeneeded h w = Inr w' \<and>
           lookup_store (conn_name h) STORE_NAME w' = Some snapshots_schema \<and>
           faults w' = faults w \<and> connections w' = connections w \<and>
           map_option version (map_of (databases w') (conn_name h)) = Some (version d) \<and>
           journal w' = journal w @
             [CreateObjectStore (conn_name h) STORE_NAME ''id'',
              CreateIndex (conn_name h) STORE_NAME ''timestamp'' ''timestamp'' False,
              CreateIndex (conn_name h) STORE_NAME ''originalUrl'' ''originalUrl'' False]"
  using assms
  by (simp add: onupgradeneeded_def objectStoreNames_contains_def createObjectStore_def
        createIndex_def lookup_store_def update_store_def map_of_map_entry map_add_def
        snapshots_schema_def)

lemma next_outcome_ok:
  assumes "list_all (\<lambda>f. f = None) (faults w)"
  shows "\<exists>w'. next_outcome w = (None, w') \<and> list_all (\<lambda>f. f = None) (faults w') \<and>
           databases w' = databases w \<and> journal w' = journal w \<and>
           connections w' = connections w"
  using assms by (cases "faults w") (auto simp: next_outcome_def)

lemma idb_open_existing:
  assumes "list_all (\<lambda>f. f = None) (faults w)"
    and "map_of (databases w) nm = Some d" and "version d = ver" and "0 < ver"
  shows "\<exists>w'. idb_open nm ver up w = (Inr \<lparr>conn_id = connections w, conn_name = nm\<rparr>, w') \<and>
           databases w' = databases w \<and> journal w' = journal w @ [Open nm ver] \<and>
           list_all (\<lambda>f. f = None) (faults w') \<and> connections w' = Suc (connections w)"
proof -
  from next_outcome_ok[OF assms(1)] obtain w1 where
    "next_outcome w = (None, w1)" "list_all (\<lambda>f. f = None) (faults w1)"
    "databases w1 = databases w" "journal w1 = journal w" "connections w1 = connections w"
    by blast
  with assms(2-4) show ?thesis
    by (simp add: idb_open_def Let_def)
qed

lemma idb_open_fresh:
  assumes "list_all (\<lambda>f. f = None) (faults w)"
    and "map_of (databases w) DB_NAME = None"
  shows "\<exists>w'. idb_open DB_NAME DB_VERSION onupgradeneeded w =
             (Inr \<lparr>conn_id = connections w, conn_name = DB_NAME\<rparr>, w') \<and>
           lookup_store DB_NAME STORE_NAME w' = Some snapshots_schema \<and>
           map_option version (map_of (databases w') DB_NAME) = Some DB_VERSION \<and>
           journal w' = journal w @
             [Open DB_NAME DB_VERSION, UpgradeNeeded DB_NAME 0 DB_VERSION,
              CreateObjectStore DB_NAME STORE_NAME ''id'',
              CreateIndex DB_NAME STORE_NAME ''timestamp'' ''timestamp'' False,
              CreateIndex DB_NAME STORE_NAME ''originalUrl'' ''originalUrl'' False] \<and>
           list_all (\<lambda>f. f = None) (faults w') \<and> connections w' = Suc (connections w)"
proof -
  from next_outcome_ok[OF assms(1)] obtain w1 where w1:
    "next_outcome w = (None, w1)" "list_all (\<lambda>f. f = None) (faults w1)"
    "databases w1 = databases w" "journal w1 = journal w" "connections w1 = connections w"
    by blast
  define h where "h = \<lparr>conn_id = connections w, conn_name = DB_NAME\<rparr>"
  define w2 where "w2 = w1\<lparr>databases := AList.update DB_NAME \<lparr>version = DB_VERSION, objectStores = []\<rparr> (databases w1),
       journal := journal w1 @ [Open DB_NAME DB_VERSION, UpgradeNeeded DB_NAME 0 DB_VERSION]\<rparr>"
  have "map_of (databases w2) (conn_name h) = Some \<lparr>version = DB_VERSION, objectStores = []\<rparr>"
    by (simp add: w2_def h_def update_conv')
  from onupgradeneeded_fresh[OF this] obtain w3 where w3:
    "onupgradeneeded h w2 = Inr w3"
    "lookup_store DB_NAME STORE_NAME w3 = Some snapshots_schema"
    "faults w3 = faults w2" "connections w3 = connections w2"
    "map_option version (map_of (databases w3) DB_NAME) = Some DB_VERSION"
    "journal w3 = journal w2 @
             [CreateObjectStore DB_NAME STORE_NAME ''id'',
              CreateIndex DB_NAME STORE_NAME ''timestamp'' ''timestamp'' False,
              CreateIndex DB_NAME STORE_NAME ''originalUrl'' ''originalUrl'' False]"
    by (auto simp: h_def)
  have "idb_open DB_NAME DB_VERSION onupgradeneeded w = (Inr h, w3\<lparr>connections := Suc (connections w3)\<rparr>)"
    using w1 assms(2) w3(1)
    by (simp add: idb_open_def Let_def h_def w2_def DB_VERSION_def)
  with w3 w1 show ?thesis
    by (simp add: h_def w2_def lookup_store_def)
qed

lemma init_ready:
  assumes "ready s"
  shows "\<exists>s'. init s = (Inr (), s') \<and> ready s' \<and>
           (\<exists>h. db (fst s') = Some h \<and> conn_name h = DB_NAME) \<and>
           lookup_store DB_NAME STORE_NAME (snd s') \<noteq> None"
proof (cases "db (fst s)")
  case (Some h)
  with assms show ?thesis
    by (auto simp: init_open ready_def attached_def lookup_store_def split: option.splits)
next
  case None
  note closed = this
  have i: "init s = (case idb_open DB_NAME DB_VERSION onupgradeneeded (snd s) of
             (Inl e, w) \<Rightarrow> (Inl (RequestError e), fst s, w)
           | (Inr h, w) \<Rightarrow> (Inr (), (fst s)\<lparr>db := Some h\<rparr>, w))"
    using closed by (simp add: init_def init_begin_def init_settle_def)
  from assms have f: "list_all (\<lambda>f. f = None) (faults (snd s))" by (simp add: ready_def)
  define h where "h = \<lparr>conn_id = connections (snd s), conn_name = DB_NAME\<rparr>"
  have "\<exists>w' d. idb_open DB_NAME DB_VERSION onupgradeneeded (snd s) = (Inr h, w') \<and>
          list_all (\<lambda>f. f = None) (faults w') \<and>
          map_of (databases w') DB_NAME = Some d \<and> version d = DB_VERSION \<and>
          map_of (objectStores d) STORE_NAME \<noteq> None"
  proof (cases "map_of (databases (snd s)) DB_NAME")
    case None
    from idb_open_fresh[OF f None] show ?thesis
      by (auto simp: h_def lookup_store_def split: option.splits)
  next
    case (Some d)
    with assms have "version d = DB_VERSION" "map_of (objectStores d) STORE_NAME \<noteq> None"
      by (auto simp: ready_def)
    with idb_open_existing[OF f Some, of DB_VERSION onupgradeneeded] Some show ?thesis
      by (auto simp: h_def DB_VERSION_def)
  qed
  then obtain w' d where o: "idb_open DB_NAME DB_VERSION onupgradeneeded (snd s) = (Inr h, w')"
    and r: "list_all (\<lambda>f. f = None) (faults w')" "map_of (databases w') DB_NAME = Some d"
      "version d = DB_VERSION" "map_of (objectStores d) STORE_NAME \<noteq> None"
    by blast
  have "init s = (Inr (), (fst s)\<lparr>db := Some h\<rparr>, w')"
    unfolding i o by simp
  moreover have "ready ((fst s)\<lparr>db := Some h\<rparr>, w')"
    using r by (simp add: ready_def attached_def h_def)
  moreover have "lookup_store DB_NAME STORE_NAME w' \<noteq> None"
    using r by (simp add: lookup_store_def)
  ultimately show ?thesis
    by (intro exI[of _ "((fst s)\<lparr>db := Some h\<rparr>, w')"]) (simp add: h_def)
qed

lemma update_store_ready:
  "ready (svc, w) \<Longrightarrow> ready (svc, update_store dbn sn f w)"
  by (auto simp: ready_def update_store_def map_of_map_entry split: option.splits)

lemma next_outcome_ready:
  assumes "ready (svc, w)"
  shows "\<exists>w'. next_outcome w = (None, w') \<and> ready (svc, w') \<and> databases w' = databases w"
proof -
  from assms have "list_all (\<lambda>f. f = None) (faults w)" by (simp add: ready_def)
  from next_outcome_ok[OF this] assms show ?thesis
    by (auto simp: ready_def split: option.splits)
qed

lemma begin_ready:
  assumes "ready s"
  shows "\<exists>svc w h. init s = (Inr (), svc, w) \<and> ready (svc, w) \<and> db svc = Some h \<and>
           transaction h [STORE_NAME] m w =
             Inr \<lparr>tx_db = DB_NAME, tx_scope = [STORE_NAME], tx_mode = m\<rparr> \<and>
           objectStore \<lparr>tx_db = DB_NAME, tx_scope = [STORE_NAME], tx_mode = m\<rparr> STORE_NAME =
             Inr \<lparr>os_tx = \<lparr>tx_db = DB_NAME, tx_scope = [STORE_NAME], tx_mode = m\<rparr>,
                  os_name = STORE_NAME\<rparr>"
proof -
  from init_ready[OF assms] obtain svc w h where
    "init s = (Inr (), svc, w)" "ready (svc, w)" "db svc = Some h" "conn_name h = DB_NAME"
    "lookup_store DB_NAME STORE_NAME w \<noteq> None"
    by (cases s) auto
  then show ?thesis
    by (auto simp: transaction_def objectStore_def objectStoreNames_contains_def)
qed

lemma saveSnapshot_ready:
  assumes "ready s"
  shows "\<exists>s'. saveSnapshot r s = (Inr (), s') \<and> ready s'"
proof -
  from begin_ready[OF assms, of ReadWrite] obtain svc w h where b:
    "init s = (Inr (), svc, w)" "ready (svc, w)" "db svc = Some h"
    "transaction h [STORE_NAME] ReadWrite w =
       Inr \<lparr>tx_db = DB_NAME, tx_scope = [STORE_NAME], tx_mode = ReadWrite\<rparr>"
    "objectStore \<lparr>tx_db = DB_NAME, tx_scope = [STORE_NAME], tx_mode = ReadWrite\<rparr> STORE_NAME =
       Inr \<lparr>os_tx = \<lparr>tx_db = DB_NAME, tx_scope = [STORE_NAME], tx_mode = ReadWrite\<rparr>,
            os_name = STORE_NAME\<rparr>"
    by blast
  from next_outcome_ready[OF b(2)] obtain w1 where
    n: "next_outcome w = (None, w1)" "ready (svc, w1)" by blast
  show ?thesis
    using b n update_store_ready[OF n(2)]
    by (simp add: saveSnapshot_def put_def)
qed

lemma deleteSnapshot_ready:
  assumes "ready s"
  shows "\<exists>s'. deleteSnapshot k s = (Inr (), s') \<and> ready s'"
proof -
  from begin_ready[OF assms, of ReadWrite] obtain svc w h where b:
    "init s = (Inr (), svc, w)" "ready (svc, w)" "db svc = Some h"
    "transaction h [STORE_NAME] ReadWrite w =
       Inr \<lparr>tx_db = DB_NAME, tx_scope = [STORE_NAME], tx_mode = ReadWrite\<rparr>"
    "objectStore \<lparr>tx_db = DB_NAME, tx_scope = [STORE_NAME], tx_mode = ReadWrite\<rparr> STORE_NAME =
       Inr \<lparr>os_tx = \<lparr>tx_db = DB_NAME, tx_scope = [STORE_NAME], tx_mode = ReadWrite\<rparr>,
            os_name = STORE_NAME\<rparr>"
    by blast
  from next_outcome_ready[OF b(2)] obtain w1 where
    n: "next_outcome w = (None, w1)" "ready (svc, w1)" by blast
  show ?thesis
    using b n update_store_ready[OF n(2)]
    by (simp add: deleteSnapshot_def delete_def)
qed

lemma getSnapshot_ready:
  assumes "ready s"
  shows "\<exists>v s'. getSnapshot k s = (Inr v, s') \<and> ready s'"
proof -
  from begin_ready[OF assms, of ReadOnly] obtain svc w h where b:
    "init s = (Inr (), svc, w)" "ready (svc, w)" "db svc = Some h"
    "transaction h [STORE_NAME] ReadOnly w =
       Inr \<lparr>tx_db = DB_NAME, tx_scope = [STORE_NAME], tx_mode = ReadOnly\<rparr>"
    "objectStore \<lparr>tx_db = DB_NAME, tx_scope = [STORE_NAME], tx_mode = ReadOnly\<rparr> STORE_NAME =
       Inr \<lparr>os_tx = \<lparr>tx_db = DB_NAME, tx_scope = [STORE_NAME], tx_mode = ReadOnly\<rparr>,
            os_name = STORE_NAME\<rparr>"
    by blast
  from next_outcome_ready[OF b(2)] obtain w1 where
    n: "next_outcome w = (None, w1)" "ready (svc, w1)" by blast
  show ?thesis
    using b n by (simp add: getSnapshot_def get_def)
qed

lemma getAllSnapshots_ready:
  assumes "ready s"
  shows "\<exists>v s'. getAllSnapshots s = (Inr v, s') \<and> ready s'"
proof -
  from begin_ready[OF assms, of ReadOnly] obtain svc w h where b:
    "init s = (Inr (), svc, w)" "ready (svc, w)" "db svc = Some h"
    "transaction h [STORE_NAME] ReadOnly w =
       Inr \<lparr>tx_db = DB_NAME, tx_scope = [STORE_NAME], tx_mode = ReadOnly\<rparr>"
    "objectStore \<lparr>tx_db = DB_NAME, tx_scope = [STORE_NAME], tx_mode = ReadOnly\<rparr> STORE_NAME =
       Inr \<lparr>os_tx = \<lparr>tx_db = DB_NAME, tx_scope = [STORE_NAME], tx_mode = ReadOnly\<rparr>,
            os_name = STORE_NAME\<rparr>"
    by blast
  from next_outcome_ready[OF b(2)] obtain w1 where
    n: "next_outcome w = (None, w1)" "ready (svc, w1)" by blast
  show ?thesis
    using b n by (simp add: getAllSnapshots_def getAll_def)
qed

lemma ready_attached: "ready s \<Longrightarrow> attached (fst s)"
  by (simp add: ready_def)

lemma find_insort_key_same:
  "find (\<lambda>x. f x = f r) (insort_key f r (filter (\<lambda>x. f x \<noteq> f r) xs)) = Some r"
  by (induction xs) auto


lemma filter_insort_key_same:
  "filter (\<lambda>x. f x = f r) (insort_key f r (filter (\<lambda>x. f x \<noteq> f r) xs)) = [r]"
  by (induction xs) auto

lemma sorted_uminus_desc:
  "sorted (map (\<lambda>a. - savedAt a) rs) \<longleftrightarrow> sorted_wrt (\<lambda>a b. savedAt b \<le> savedAt a) rs"
  by (induction rs) auto

lemma stored_populated: "stored (snd populated) = [snap_a, snap_b, snap_c]"
  by (simp add: stored_def records_of_def lookup_store_def populated_def)

lemma ready_populated: "ready populated"
  by (simp add: ready_def attached_def populated_def snapshots_schema_def)

lemma map_entry_same:
  "(\<And>v. map_of xs k = Some v \<Longrightarrow> f v = v) \<Longrightarrow> AList.map_entry k f xs = xs"
  by (induction xs) auto

lemma update_store_same:
  assumes "\<And>st. lookup_store dbn sn w = Some st \<Longrightarrow> f st = st"
  shows "databases (update_store dbn sn f w) = databases w"
proof -
  have "AList.map_entry dbn (\<lambda>d. d\<lparr>objectStores := AList.map_entry sn f (objectStores d)\<rparr>)
          (databases w) = databases w"
  proof (rule map_entry_same)
    fix d assume d: "map_of (databases w) dbn = Some d"
    have "AList.map_entry sn f (objectStores d) = objectStores d"
      by (rule map_entry_same) (use d assms in \<open>simp add: lookup_store_def\<close>)
    then show "d\<lparr>objectStores := AList.map_entry sn f (objectStores d)\<rparr> = d" by simp
  qed
  then show ?thesis by (simp add: update_store_def)
qed

lemma init_databases:
  assumes "ready s" and "map_of (databases (snd s)) DB_NAME \<noteq> None" and "init s = (r, s')"
  shows "databases (snd s') = databases (snd s)"
proof (cases "db (fst s)")
  case (Some h)
  then show ?thesis using assms(3) by (simp add: init_open)
next
  case None
  from assms(1,2) obtain d where d: "map_of (databases (snd s)) DB_NAME = Some d"
    "version d = DB_VERSION" and f: "list_all (\<lambda>f. f = None) (faults (snd s))"
    by (auto simp: ready_def)
  from idb_open_existing[OF f d(1), of DB_VERSION onupgradeneeded] d(2)
  obtain w' where "idb_open DB_NAME DB_VERSION onupgradeneeded (snd s) =
      (Inr \<lparr>conn_id = connections (snd s), conn_name = DB_NAME\<rparr>, w')" "databases w' = databases (snd s)"
    by (auto simp: DB_VERSION_def)
  with None assms(3) show ?thesis
    by (auto simp: init_def init_begin_def init_settle_def)
qed

lemma deleteSnapshot_databases:
  assumes "ready s" and "map_of (databases (snd s)) DB_NAME \<noteq> None"
    and "k \<notin> id' ` set (stored (snd s))" and "deleteSnapshot k s = (Inr (), s1)"
  shows "databases (snd s1) = databases (snd s)"
proof -
  from assms(4) obtain svc w h tx os w' where
    i: "init s = (Inr (), svc, w)" and h: "db svc = Some h" and
    t: "transaction h [STORE_NAME] ReadWrite w = Inr tx" and
    o: "objectStore tx STORE_NAME = Inr os" and
    p: "delete os k w = (Inr (), w')" and s1: "s1 = (svc, w')"
    by (auto simp: deleteSnapshot_def split: prod.splits sum.splits option.splits)
  from init_attached[OF i ready_attached[OF assms(1)]] h have n: "conn_name h = DB_NAME"
    by (auto simp: attached_def)
  from transaction_Inr[OF t] objectStore_Inr[OF o] n
  have os: "tx_db (os_tx os) = DB_NAME" "os_name os = STORE_NAME" by auto
  from p obtain w1 where n1: "next_outcome w = (None, w1)"
    and w': "w' = update_store DB_NAME STORE_NAME
               (\<lambda>st. st\<lparr>records := filter (\<lambda>x. id' x \<noteq> k) (records st)\<rparr>) w1"
    by (auto simp: delete_def os split: if_splits prod.splits option.splits)
  have st: "stored w1 = stored (snd s)"
    using next_outcome_records_of[OF n1] init_records_of[OF i] by (simp add: stored_def)
  have "databases w' = databases w1"
    unfolding w'
  proof (rule update_store_same)
    fix st' assume l: "lookup_store DB_NAME STORE_NAME w1 = Some st'"
    then have "records st' = stored (snd s)"
      using st by (simp add: stored_def records_of_def)
    with assms(3) have "filter (\<lambda>x. id' x \<noteq> k) (records st') = records st'"
      by (auto simp: filter_id_conv)
    then show "st'\<lparr>records := filter (\<lambda>x. id' x \<noteq> k) (records st')\<rparr> = st'" by simp
  qed
  also have "\<dots> = databases w" using next_outcome_databases[OF n1] .
  also have "\<dots> = databases (snd s)" using init_databases[OF assms(1,2) i] by simp
  finally show ?thesis by (simp add: s1)
qed

lemma find_filter_other:
  "k' \<noteq> k \<Longrightarrow> find (\<lambda>x. f x = k') (filter (\<lambda>x. f x \<noteq> k) xs) = find (\<lambda>x. f x = k') xs"
  by (induction xs) auto

lemma find_filter_same:
  "find (\<lambda>x. f x = k) (filter (\<lambda>x. f x \<noteq> k) xs) = None"
  by (induction xs) auto


lemma next_outcome_journal:
  "next_outcome w = (f, w') \<Longrightarrow> journal w' = journal w \<and> connections w' = connections w"
  by (auto simp: next_outcome_def split: list.splits)

lemma idb_open_same_version:
  assumes "map_of (databases w) nm = Some d" and "version d = ver"
    and "idb_open nm ver up w = (r, w')"
  shows "databases w' = databases w \<and>
         (journal w' = journal w \<or> journal w' = journal w @ [Open nm ver])"
proof (cases "ver = 0")
  case True
  with assms(3) show ?thesis by (simp add: idb_open_def)
next
  case False
  obtain f w1 where n: "next_outcome w = (f, w1)" by (cases "next_outcome w")
  from next_outcome_databases[OF n] next_outcome_journal[OF n]
  have e: "databases w1 = databases w" "journal w1 = journal w" by auto
  show ?thesis
  proof (cases f)
    case None
    with assms False n e show ?thesis by (auto simp: idb_open_def Let_def)
  next
    case (Some x)
    with assms False n e show ?thesis by (auto simp: idb_open_def)
  qed
qed

lemma init_same_version:
  assumes "map_of (databases (snd s)) DB_NAME = Some d" and "version d = DB_VERSION"
    and "init s = (r, s')"
  shows "databases (snd s') = databases (snd s) \<and>
         (journal (snd s') = journal (snd s) \<or>
          journal (snd s') = journal (snd s) @ [Open DB_NAME DB_VERSION])"
proof (cases "db (fst s)")
  case (Some h)
  with assms(3) show ?thesis by (simp add: init_open)
next
  case None
  obtain r0 w' where o: "idb_open DB_NAME DB_VERSION onupgradeneeded (snd s) = (r0, w')"
    by (cases "idb_open DB_NAME DB_VERSION onupgradeneeded (snd s)")
  from None assms(3) o have "snd s' = w'"
    by (auto simp: init_def init_begin_def init_settle_def split: sum.splits)
  with idb_open_same_version[OF assms(1,2) o] show ?thesis by simp
qed

lemma settle_pending:
  assumes "ready (\<lparr>db = None\<rparr>, snd s)"
  shows "\<exists>w'. init_settle Pending s =
           (Inr (), (fst s)\<lparr>db := Some \<lparr>conn_id = connections (snd s), conn_name = DB_NAME\<rparr>\<rparr>, w') \<and>
         connections w' = Suc (connections (snd s)) \<and>
         ready (\<lparr>db = Some \<lparr>conn_id = connections (snd s), conn_name = DB_NAME\<rparr>\<rparr>, w') \<and>
         stored w' = stored (snd s) \<and>
         journal w' = journal (snd s) @ Open DB_NAME DB_VERSION #
           (if map_of (databases (snd s)) DB_NAME = None then creation_events else [])"
proof -
  define h where "h = \<lparr>conn_id = connections (snd s), conn_name = DB_NAME\<rparr>"
  from assms have f: "list_all (\<lambda>f. f = None) (faults (snd s))" by (simp add: ready_def)
  have "\<exists>w' d. idb_open DB_NAME DB_VERSION onupgradeneeded (snd s) = (Inr h, w') \<and>
          list_all (\<lambda>f. f = None) (faults w') \<and> connections w' = Suc (connections (snd s)) \<and>
          map_of (databases w') DB_NAME = Some d \<and> version d = DB_VERSION \<and>
          map_of (objectStores d) STORE_NAME \<noteq> None \<and>
          journal w' = journal (snd s) @ Open DB_NAME DB_VERSION #
           (if map_of (databases (snd s)) DB_NAME = None then creation_events else [])"
  proof (cases "map_of (databases (snd s)) DB_NAME")
    case None
    from idb_open_fresh[OF f None] None show ?thesis
      by (auto simp: h_def lookup_store_def creation_events_def split: option.splits)
  next
    case (Some d)
    with assms have "version d = DB_VERSION" "map_of (objectStores d) STORE_NAME \<noteq> None"
      by (auto simp: ready_def)
    with idb_open_existing[OF f Some, of DB_VERSION onupgradeneeded] Some show ?thesis
      by (auto simp: h_def DB_VERSION_def)
  qed
  then obtain w' d where o: "idb_open DB_NAME DB_VERSION onupgradeneeded (snd s) = (Inr h, w')"
    and r: "list_all (\<lambda>f. f = None) (faults w')" "map_of (databases w') DB_NAME = Some d"
      "version d = DB_VERSION" "map_of (objectStores d) STORE_NAME \<noteq> None"
      "connections w' = Suc (connections (snd s))"
      "journal w' = journal (snd s) @ Open DB_NAME DB_VERSION #
           (if map_of (databases (snd s)) DB_NAME = None then creation_events else [])"
    by blast
  have "init_settle Pending s = (Inr (), (fst s)\<lparr>db := Some h\<rparr>, w')"
    by (simp add: init_settle_def o)
  moreover have "ready (\<lparr>db = Some h\<rparr>, w')"
    using r by (simp add: ready_def attached_def h_def)
  moreover have "stored w' = stored (snd s)"
    using idb_open_records_of[OF o] by (simp add: stored_def)
  ultimately show ?thesis using r(5,6) unfolding h_def by blast
qed

lemma ready_reset: "ready (svc, w) \<Longrightarrow> ready (\<lparr>db = None\<rparr>, w)"
  by (auto simp: ready_def attached_def split: option.splits)


text \<open>
  The operations keep the connection attached and the records in key order, and both hold
  for the service before its first call.
\<close>

lemma key_ordered_put:
  assumes "key_ordered rs"
  shows "key_ordered (insort_key id' r (filter (\<lambda>x. id' x \<noteq> id' r) rs))"
proof -
  from assms have "sorted (map id' (filter (\<lambda>x. id' x \<noteq> id' r) rs))"
    and "distinct (map id' (filter (\<lambda>x. id' x \<noteq> id' r) rs))"
    by (auto simp: key_ordered_def sorted_filter distinct_map_filter)
  then show ?thesis
    by (auto simp: key_ordered_def sorted_insort_key distinct_insort_key)
qed

lemma key_ordered_delete:
  "key_ordered rs \<Longrightarrow> key_ordered (filter (\<lambda>x. id' x \<noteq> k) rs)"
  by (auto simp: key_ordered_def sorted_filter distinct_map_filter)

lemma key_ordered_operations:
  assumes "attached (fst s)" and "key_ordered (stored (snd s))"
  shows "saveSnapshot r s = (Inr u, s') \<Longrightarrow> key_ordered (stored (snd s'))"
    and "deleteSnapshot k s = (Inr u, s') \<Longrightarrow> key_ordered (stored (snd s'))"
    and "getSnapshot k s = (Inr v, s') \<Longrightarrow> key_ordered (stored (snd s'))"
    and "getAllSnapshots s = (Inr rs, s') \<Longrightarrow> key_ordered (stored (snd s'))"
  using assms
  by (simp_all add: saveSnapshot_Inr deleteSnapshot_Inr getSnapshot_Inr getAllSnapshots_Inr
        key_ordered_put key_ordered_delete)

lemma attached_operations:
  assumes "attached (fst s)"
  shows "saveSnapshot r s = (res1, s') \<Longrightarrow> attached (fst s')"
    and "deleteSnapshot k s = (res2, s') \<Longrightarrow> attached (fst s')"
    and "getSnapshot k s = (res3, s') \<Longrightarrow> attached (fst s')"
    and "getAllSnapshots s = (res4, s') \<Longrightarrow> attached (fst s')"
proof -
  have i: "attached (fst s1)" if "init s = (r0, s1)" for r0 s1
    using init_attached[OF that assms] .
  show "saveSnapshot r s = (res1, s') \<Longrightarrow> attached (fst s')"
    using i by (auto simp: saveSnapshot_def split: prod.splits sum.splits option.splits)
  show "deleteSnapshot k s = (res2, s') \<Longrightarrow> attached (fst s')"
    using i by (auto simp: deleteSnapshot_def split: prod.splits sum.splits option.splits)
  show "getSnapshot k s = (res3, s') \<Longrightarrow> attached (fst s')"
    using i by (auto simp: getSnapshot_def split: prod.splits sum.splits option.splits)
  show "getAllSnapshots s = (res4, s') \<Longrightarrow> attached (fst s')"
    using i by (auto simp: getAllSnapshots_def split: prod.splits sum.splits option.splits)
qed

lemma fresh_invariants: "attached (fst fresh)" "key_ordered (stored (snd fresh))"
  by (simp_all add: fresh_def attached_def key_ordered_def stored_def records_of_def
        lookup_store_def)


section \<open>Properties of the Wayback client\<close>

text \<open>
  The mock history has fifteen records, all for the url asked; the months of their
  timestamps run from January to December and start again.
\<close>

lemma digit_chars:
  "char_of (48 :: nat) = CHR ''0''" "char_of (49 :: nat) = CHR ''1''"
  "char_of (50 :: nat) = CHR ''2''" "char_of (51 :: nat) = CHR ''3''"
  "char_of (52 :: nat) = CHR ''4''" "char_of (53 :: nat) = CHR ''5''"
  "char_of (54 :: nat) = CHR ''6''" "char_of (55 :: nat) = CHR ''7''"
  "char_of (56 :: nat) = CHR ''8''" "char_of (57 :: nat) = CHR ''9''"
  by code_simp+

lemma length_getMockCDX: "length (getMockCDX url) = 15"
  by (simp add: getMockCDX_def)

lemma getMockCDX_fields:
  "r \<in> set (getMockCDX url) \<Longrightarrow> urlkey r = Some (JStr url) \<and> original r = Some (JStr url)"
  by (auto simp: getMockCDX_def)

lemma getMockCDX_timestamps:
  "map timestamp' (getMockCDX url) =
     map (\<lambda>m. Some (JStr (''2023'' @ m @ ''01120000'')))
       [''01'', ''02'', ''03'', ''04'', ''05'', ''06'', ''07'', ''08'', ''09'', ''10'', ''11'', ''12'',
        ''01'', ''02'', ''03'']"
  by (simp add: getMockCDX_def upt_rec padStart_def toString.simps digit_chars)

lemma checkAvailability_try_failure:
  "isl (fst (checkAvailability_try env url)) = availability_failure env url"
  by (auto simp: checkAvailability_try_def availability_failure_def res_json_def Let_def
        split: option.splits fetch_result.splits)

lemma fetchCDX_try_failure:
  "isl (fst (fetchCDX_try env url)) = cdx_failure env url"
  by (auto simp: fetchCDX_try_def cdx_failure_def cdx_request_def non_json_def res_json_def
        res_text_def Let_def
        split: option.splits fetch_result.splits json.splits sum.splits)

lemma isDemoMode_live: "isDemoMode live_env = Some (JBool False)"
  by (simp add: isDemoMode_def live_env_def)

lemma isDemoMode_demo: "isDemoMode demo_env = Some (JBool True)"
  by (simp add: isDemoMode_def demo_env_def live_env_def demo_settings_def)

lemma checkAvailability_result:
  "fst (checkAvailability env url) =
     (if truthy (isDemoMode env) \<or> availability_failure env url
      then Inr (getMockAvailability url)
      else fst (checkAvailability_try env url))"
  using checkAvailability_try_failure[of env url]
  by (cases "checkAvailability_try env url"; cases "fst (checkAvailability_try env url)")
     (auto simp: checkAvailability_def)

lemma fetchCDX_result:
  "fst (fetchCDX env url) =
     (if truthy (isDemoMode env) \<or> cdx_failure env url
      then Inr (getMockCDX url)
      else fst (fetchCDX_try env url))"
  using fetchCDX_try_failure[of env url]
  by (cases "fetchCDX_try env url"; cases "fst (fetchCDX_try env url)")
     (auto simp: fetchCDX_def)

lemma fetchCDX_try_empty:
  "empty_non_json env url \<Longrightarrow> fst (fetchCDX_try env url) = Inr []"
  by (auto simp: empty_non_json_def fetchCDX_try_def cdx_request_def non_json_def res_text_def
        Let_def split: option.splits fetch_result.splits)

lemma empty_not_failure: "empty_non_json env url \<Longrightarrow> \<not> cdx_failure env url"
  by (auto simp: empty_non_json_def cdx_failure_def split: option.splits fetch_result.splits)


section \<open>Claims about the storage service\<close>

text \<open>
  C1: for every record \<open>R\<close>, \<open>saveSnapshot R\<close> followed by \<open>getSnapshot (id R)\<close> on the
  resulting state returns a record equal to \<open>R\<close>. Whenever both calls resolve, the second
  one resolves with \<open>R\<close>; and from a ready state both calls do resolve.
\<close>

theorem saveSnapshot_then_getSnapshot:
  assumes "attached (fst s)"
  shows "(\<forall>s1 v s2. saveSnapshot R s = (Inr (), s1) \<and> getSnapshot (id' R) s1 = (Inr v, s2)
            \<longrightarrow> v = Some R) \<and>
         (ready s \<longrightarrow>
            (\<exists>s1 s2. saveSnapshot R s = (Inr (), s1) \<and> getSnapshot (id' R) s1 = (Inr (Some R), s2)))"
proof (intro conjI allI impI)
  fix s1 v s2
  assume a: "saveSnapshot R s = (Inr (), s1) \<and> getSnapshot (id' R) s1 = (Inr v, s2)"
  from saveSnapshot_Inr[OF conjunct1[OF a] assms]
  have st: "stored (snd s1) = insort_key id' R (filter (\<lambda>x. id' x \<noteq> id' R) (stored (snd s)))"
    and at: "attached (fst s1)" by auto
  from getSnapshot_Inr(1)[OF conjunct2[OF a] at] show "v = Some R"
    by (simp add: st find_insort_key_same)
next
  assume r: "ready s"
  from saveSnapshot_ready[OF r, of R] obtain s1 where
    s1: "saveSnapshot R s = (Inr (), s1)" "ready s1" by blast
  from getSnapshot_ready[OF s1(2), of "id' R"] obtain v s2 where
    g: "getSnapshot (id' R) s1 = (Inr v, s2)" by blast
  from saveSnapshot_Inr[OF s1(1) assms]
  have st: "stored (snd s1) = insort_key id' R (filter (\<lambda>x. id' x \<noteq> id' R) (stored (snd s)))"
    and at: "attached (fst s1)" by auto
  from getSnapshot_Inr(1)[OF g at] have "v = Some R"
    by (simp add: st find_insort_key_same)
  with s1 g show "\<exists>s1 s2. saveSnapshot R s = (Inr (), s1) \<and> getSnapshot (id' R) s1 = (Inr (Some R), s2)"
    by blast
qed

theorem saveSnapshot_then_getSnapshot_witness:
  "attached (fst fresh) \<and> ready fresh \<and>
   (\<exists>s1 s2. saveSnapshot snap_a fresh = (Inr (), s1) \<and>
      getSnapshot (id' snap_a) s1 = (Inr (Some snap_a), s2))"
  using saveSnapshot_then_getSnapshot[of fresh snap_a]
  by (simp add: ready_def fresh_def attached_def)

text \<open>
  C2: for two records \<open>R1\<close> and \<open>R2\<close> with the same \<open>id\<close>, \<open>saveSnapshot R1\<close> and then
  \<open>saveSnapshot R2\<close> leave exactly \<open>R2\<close> under that \<open>id\<close>: the store holds one record
  with the key, it is \<open>R2\<close>, and \<open>getSnapshot\<close> resolves with \<open>R2\<close>, whatever \<open>R1\<close> was.
  From a ready state the three calls resolve.
\<close>

theorem saveSnapshot_replaces:
  assumes "attached (fst s)" and "id' R1 = id' R2"
  shows "(\<forall>s1 s2. saveSnapshot R1 s = (Inr (), s1) \<and> saveSnapshot R2 s1 = (Inr (), s2) \<longrightarrow>
            filter (\<lambda>x. id' x = id' R2) (stored (snd s2)) = [R2] \<and>
            (\<forall>v s3. getSnapshot (id' R2) s2 = (Inr v, s3) \<longrightarrow> v = Some R2)) \<and>
         (ready s \<longrightarrow>
            (\<exists>s1 s2 s3. saveSnapshot R1 s = (Inr (), s1) \<and> saveSnapshot R2 s1 = (Inr (), s2) \<and>
               getSnapshot (id' R2) s2 = (Inr (Some R2), s3)))"
proof -
  have part: "filter (\<lambda>x. id' x = id' R2) (stored (snd s2)) = [R2] \<and>
            (\<forall>v s3. getSnapshot (id' R2) s2 = (Inr v, s3) \<longrightarrow> v = Some R2)"
    if a: "saveSnapshot R1 s = (Inr (), s1)" "saveSnapshot R2 s1 = (Inr (), s2)" for s1 s2
  proof -
    from saveSnapshot_Inr[OF a(1) assms(1)] have at1: "attached (fst s1)" by simp
    from saveSnapshot_Inr[OF a(2) at1]
    have st: "stored (snd s2) = insort_key id' R2 (filter (\<lambda>x. id' x \<noteq> id' R2) (stored (snd s1)))"
      and at2: "attached (fst s2)" by auto
    have "v = Some R2" if "getSnapshot (id' R2) s2 = (Inr v, s3)" for v s3
      using getSnapshot_Inr(1)[OF that at2] by (simp add: st find_insort_key_same)
    then show ?thesis by (simp add: st filter_insort_key_same)
  qed
  have tot: "\<exists>s1 s2 s3. saveSnapshot R1 s = (Inr (), s1) \<and> saveSnapshot R2 s1 = (Inr (), s2) \<and>
               getSnapshot (id' R2) s2 = (Inr (Some R2), s3)" if r: "ready s"
  proof -
    from saveSnapshot_ready[OF r, of R1] obtain s1 where
      s1: "saveSnapshot R1 s = (Inr (), s1)" "ready s1" by blast
    from saveSnapshot_ready[OF s1(2), of R2] obtain s2 where
      s2: "saveSnapshot R2 s1 = (Inr (), s2)" "ready s2" by blast
    from getSnapshot_ready[OF s2(2), of "id' R2"] obtain v s3 where
      g: "getSnapshot (id' R2) s2 = (Inr v, s3)" by blast
    with part[OF s1(1) s2(1)] have "v = Some R2" by blast
    with s1 s2 g show ?thesis by blast
  qed
  from part tot show ?thesis by blast
qed

theorem saveSnapshot_replaces_witness:
  "attached (fst fresh) \<and> id' snap_a = id' snap_a2 \<and> ready fresh \<and> snap_a \<noteq> snap_a2 \<and>
   (\<exists>s1 s2 s3. saveSnapshot snap_a fresh = (Inr (), s1) \<and>
      saveSnapshot snap_a2 s1 = (Inr (), s2) \<and>
      getSnapshot ''a'' s2 = (Inr (Some snap_a2), s3))"
  using saveSnapshot_replaces[of fresh snap_a snap_a2]
  by (simp add: ready_def fresh_def attached_def snap_a_def snap_a2_def)


text \<open>
  C3: \<open>getAllSnapshots\<close> resolves with all the stored records, each as often as it is
  stored, in descending order of \<open>savedAt\<close>; the order is that of sorting the records read,
  whatever order the store holds them in; an empty store gives the empty list, and from a
  ready state the call resolves rather than rejects.
\<close>

theorem getAllSnapshots_sorted:
  assumes "attached (fst s)"
  shows "(\<forall>rs s1. getAllSnapshots s = (Inr rs, s1) \<longrightarrow>
            rs = sort_key (\<lambda>a. - savedAt a) (stored (snd s)) \<and>
            sorted_wrt (\<lambda>a b. savedAt b \<le> savedAt a) rs \<and>
            mset rs = mset (stored (snd s)) \<and>
            (stored (snd s) = [] \<longrightarrow> rs = [])) \<and>
         (ready s \<longrightarrow> (\<exists>rs s1. getAllSnapshots s = (Inr rs, s1)))"
proof -
  have "rs = sort_key (\<lambda>a. - savedAt a) (stored (snd s)) \<and>
        sorted_wrt (\<lambda>a b. savedAt b \<le> savedAt a) rs \<and>
        mset rs = mset (stored (snd s)) \<and>
        (stored (snd s) = [] \<longrightarrow> rs = [])"
    if g: "getAllSnapshots s = (Inr rs, s1)" for rs s1
  proof -
    from getAllSnapshots_Inr(1)[OF g assms]
    have rs: "rs = sort_key (\<lambda>a. - savedAt a) (stored (snd s))" .
    have "sorted (map (\<lambda>a. - savedAt a) rs)" unfolding rs by (rule sorted_sort_key)
    then have "sorted_wrt (\<lambda>a b. savedAt b \<le> savedAt a) rs" by (simp add: sorted_uminus_desc)
    moreover have "mset rs = mset (stored (snd s))" unfolding rs by simp
    moreover have "stored (snd s) = [] \<longrightarrow> rs = []" unfolding rs by simp
    ultimately show ?thesis using rs by blast
  qed
  moreover have "\<exists>rs s1. getAllSnapshots s = (Inr rs, s1)" if "ready s"
    using getAllSnapshots_ready[OF that] by blast
  ultimately show ?thesis by blast
qed

theorem getAllSnapshots_sorted_witness:
  "attached (fst populated) \<and> ready populated \<and>
   map savedAt (stored (snd populated)) = [1, 5, 3] \<and>
   (\<exists>rs s1. getAllSnapshots populated = (Inr rs, s1) \<and> rs = [snap_b, snap_c, snap_a] \<and>
      map savedAt rs = [5, 3, 1]) \<and>
   attached (fst fresh) \<and> ready fresh \<and> stored (snd fresh) = [] \<and>
   (\<exists>s1. getAllSnapshots fresh = (Inr [], s1))"
proof -
  have f: "attached (fst fresh)" "ready fresh" "stored (snd fresh) = []"
    by (simp_all add: fresh_def attached_def ready_def stored_def records_of_def lookup_store_def)
  from getAllSnapshots_sorted[OF f(1)] f(2) obtain rs0 s0 where
    g0: "getAllSnapshots fresh = (Inr rs0, s0)"
    and rs0: "rs0 = sort_key (\<lambda>a. - savedAt a) (stored (snd fresh))"
    by blast
  have e: "\<exists>s1. getAllSnapshots fresh = (Inr [], s1)"
    using g0 unfolding rs0 f(3) by auto
  have a: "attached (fst populated)" using ready_populated by (rule ready_attached)
  from getAllSnapshots_sorted[OF a] ready_populated obtain rs s1 where
    g: "getAllSnapshots populated = (Inr rs, s1)"
    and rs: "rs = sort_key (\<lambda>a. - savedAt a) (stored (snd populated))"
    by blast
  have r: "rs = [snap_b, snap_c, snap_a]"
    unfolding rs stored_populated by (simp add: snap_a_def snap_b_def snap_c_def)
  have p: "\<exists>rs s1. getAllSnapshots populated = (Inr rs, s1) \<and> rs = [snap_b, snap_c, snap_a] \<and>
      map savedAt rs = [5, 3, 1]"
    using g r by (auto simp: snap_a_def snap_b_def snap_c_def)
  have q: "map savedAt (stored (snd populated)) = [1, 5, 3]"
    by (simp add: stored_populated snap_a_def snap_b_def snap_c_def)
  from a ready_populated q p f e show ?thesis by blast
qed

text \<open>
  C4: for an \<open>id\<close> that no stored record has, \<open>getSnapshot\<close> resolves with \<open>undefined\<close>
  (\<open>None\<close>): whenever it resolves the value is \<open>None\<close>, and from a ready state it does
  resolve, the miss raising nothing.
\<close>

theorem getSnapshot_absent:
  assumes "attached (fst s)" and "k \<notin> id' ` set (stored (snd s))"
  shows "(\<forall>v s1. getSnapshot k s = (Inr v, s1) \<longrightarrow> v = None) \<and>
         (ready s \<longrightarrow> (\<exists>s1. getSnapshot k s = (Inr None, s1)))"
proof -
  have n: "v = None" if "getSnapshot k s = (Inr v, s1)" for v s1
    using getSnapshot_Inr(1)[OF that assms(1)] assms(2)
    by (auto simp: find_None_iff)
  moreover have "\<exists>s1. getSnapshot k s = (Inr None, s1)" if "ready s"
    using getSnapshot_ready[OF that, of k] n by blast
  ultimately show ?thesis by blast
qed

theorem getSnapshot_absent_witness:
  "attached (fst populated) \<and> ''nonexistent'' \<notin> id' ` set (stored (snd populated)) \<and>
   ready populated \<and> (\<exists>s1. getSnapshot ''nonexistent'' populated = (Inr None, s1))"
proof -
  have a: "attached (fst populated)" using ready_populated by (rule ready_attached)
  have b: "''nonexistent'' \<notin> id' ` set (stored (snd populated))"
    by (simp add: stored_populated snap_a_def snap_b_def snap_c_def)
  from getSnapshot_absent[OF a b] ready_populated a b show ?thesis by blast
qed


text \<open>
  C5: for an \<open>id\<close> that no stored record has, \<open>deleteSnapshot\<close> resolves and leaves the
  stored records as they were; where the database existed before the call, the call leaves
  all databases of the engine as they were.
\<close>

theorem deleteSnapshot_absent:
  assumes "attached (fst s)" and "k \<notin> id' ` set (stored (snd s))"
  shows "(\<forall>s1. deleteSnapshot k s = (Inr (), s1) \<longrightarrow> stored (snd s1) = stored (snd s)) \<and>
         (ready s \<longrightarrow>
            (\<exists>s1. deleteSnapshot k s = (Inr (), s1) \<and> stored (snd s1) = stored (snd s) \<and>
               (map_of (databases (snd s)) DB_NAME \<noteq> None \<longrightarrow>
                  databases (snd s1) = databases (snd s))))"
proof -
  have u: "stored (snd s1) = stored (snd s)" if "deleteSnapshot k s = (Inr (), s1)" for s1
    using deleteSnapshot_Inr(1)[OF that assms(1)] assms(2) by (auto simp: filter_id_conv)
  moreover have "\<exists>s1. deleteSnapshot k s = (Inr (), s1) \<and> stored (snd s1) = stored (snd s) \<and>
               (map_of (databases (snd s)) DB_NAME \<noteq> None \<longrightarrow>
                  databases (snd s1) = databases (snd s))" if r: "ready s"
  proof -
    from deleteSnapshot_ready[OF r, of k] obtain s1 where
      d: "deleteSnapshot k s = (Inr (), s1)" by blast
    with u deleteSnapshot_databases[OF r _ assms(2) d] show ?thesis by blast
  qed
  ultimately show ?thesis by blast
qed

theorem deleteSnapshot_absent_witness:
  "attached (fst populated) \<and> ''nonexistent'' \<notin> id' ` set (stored (snd populated)) \<and>
   ready populated \<and> map_of (databases (snd populated)) DB_NAME \<noteq> None \<and>
   (\<exists>s1. deleteSnapshot ''nonexistent'' populated = (Inr (), s1) \<and>
      stored (snd s1) = [snap_a, snap_b, snap_c] \<and>
      databases (snd s1) = databases (snd populated))"
proof -
  have a: "attached (fst populated)" using ready_populated by (rule ready_attached)
  have b: "''nonexistent'' \<notin> id' ` set (stored (snd populated))"
    by (simp add: stored_populated snap_a_def snap_b_def snap_c_def)
  have c: "map_of (databases (snd populated)) DB_NAME \<noteq> None"
    by (simp add: populated_def)
  from deleteSnapshot_absent[OF a b] ready_populated a b c show ?thesis
    by (auto simp: stored_populated)
qed


text \<open>
  C6: \<open>deleteSnapshot\<close> removes the record with the given \<open>id\<close> and no other. With records
  \<open>a\<close> and \<open>b\<close> of distinct \<open>id\<close> stored, after \<open>deleteSnapshot (id a)\<close> the list of
  \<open>getAllSnapshots\<close> is the former list without the records of that \<open>id\<close>: it contains
  \<open>b\<close> and not \<open>a\<close>; \<open>getSnapshot (id a)\<close> resolves with \<open>undefined\<close> and
  \<open>getSnapshot (id b)\<close> with what it found before.
\<close>

theorem deleteSnapshot_removes_only:
  assumes "attached (fst s)" and "a \<in> set (stored (snd s))" and "b \<in> set (stored (snd s))"
    and "id' a \<noteq> id' b"
  shows "(\<forall>s1. deleteSnapshot (id' a) s = (Inr (), s1) \<longrightarrow>
            (\<forall>rs s2. getAllSnapshots s1 = (Inr rs, s2) \<longrightarrow>
               rs = filter (\<lambda>x. id' x \<noteq> id' a) (sort_key (\<lambda>x. - savedAt x) (stored (snd s))) \<and>
               b \<in> set rs \<and> a \<notin> set rs) \<and>
            (\<forall>v s2. getSnapshot (id' a) s1 = (Inr v, s2) \<longrightarrow> v = None) \<and>
            (\<forall>v s2. getSnapshot (id' b) s1 = (Inr v, s2) \<longrightarrow>
               v = find (\<lambda>x. id' x = id' b) (stored (snd s)))) \<and>
         (ready s \<longrightarrow>
            (\<exists>s1 rs s2 s3. deleteSnapshot (id' a) s = (Inr (), s1) \<and>
               getAllSnapshots s1 = (Inr rs, s2) \<and> getSnapshot (id' a) s2 = (Inr None, s3)))"
proof -
  have part: "(\<forall>rs s2. getAllSnapshots s1 = (Inr rs, s2) \<longrightarrow>
               rs = filter (\<lambda>x. id' x \<noteq> id' a) (sort_key (\<lambda>x. - savedAt x) (stored (snd s))) \<and>
               b \<in> set rs \<and> a \<notin> set rs) \<and>
            (\<forall>v s2. getSnapshot (id' a) s1 = (Inr v, s2) \<longrightarrow> v = None) \<and>
            (\<forall>v s2. getSnapshot (id' b) s1 = (Inr v, s2) \<longrightarrow>
               v = find (\<lambda>x. id' x = id' b) (stored (snd s)))"
    if d: "deleteSnapshot (id' a) s = (Inr (), s1)" for s1
  proof -
    from deleteSnapshot_Inr[OF d assms(1)]
    have st: "stored (snd s1) = filter (\<lambda>x. id' x \<noteq> id' a) (stored (snd s))"
      and at: "attached (fst s1)" by auto
    have l: "rs = filter (\<lambda>x. id' x \<noteq> id' a) (sort_key (\<lambda>x. - savedAt x) (stored (snd s))) \<and>
               b \<in> set rs \<and> a \<notin> set rs"
      if "getAllSnapshots s1 = (Inr rs, s2)" for rs s2
    proof -
      from getAllSnapshots_Inr(1)[OF that at]
      have "rs = sort_key (\<lambda>x. - savedAt x) (filter (\<lambda>x. id' x \<noteq> id' a) (stored (snd s)))"
        by (simp add: st)
      then have rs: "rs = filter (\<lambda>x. id' x \<noteq> id' a) (sort_key (\<lambda>x. - savedAt x) (stored (snd s)))"
        by (simp add: filter_sort)
      with assms(3,4) show ?thesis by auto
    qed
    have ga: "v = None" if "getSnapshot (id' a) s1 = (Inr v, s2)" for v s2
      using getSnapshot_Inr(1)[OF that at] by (simp add: st find_filter_same)
    have gb: "v = find (\<lambda>x. id' x = id' b) (stored (snd s))"
      if "getSnapshot (id' b) s1 = (Inr v, s2)" for v s2
      using getSnapshot_Inr(1)[OF that at] assms(4) by (simp add: st find_filter_other)
    from l ga gb show ?thesis by blast
  qed
  have tot: "\<exists>s1 rs s2 s3. deleteSnapshot (id' a) s = (Inr (), s1) \<and>
               getAllSnapshots s1 = (Inr rs, s2) \<and> getSnapshot (id' a) s2 = (Inr None, s3)"
    if r: "ready s"
  proof -
    from deleteSnapshot_ready[OF r, of "id' a"] obtain s1 where
      d: "deleteSnapshot (id' a) s = (Inr (), s1)" "ready s1" by blast
    from getAllSnapshots_ready[OF d(2)] obtain rs s2 where
      g: "getAllSnapshots s1 = (Inr rs, s2)" "ready s2" by blast
    from getSnapshot_ready[OF g(2), of "id' a"] obtain v s3 where
      h: "getSnapshot (id' a) s2 = (Inr v, s3)" by blast
    from deleteSnapshot_Inr[OF d(1) assms(1)]
    have st: "stored (snd s1) = filter (\<lambda>x. id' x \<noteq> id' a) (stored (snd s))"
      and at: "attached (fst s1)" by auto
    from getAllSnapshots_Inr(2,3)[OF g(1) at]
    have st2: "stored (snd s2) = stored (snd s1)" and at2: "attached (fst s2)" by auto
    from getSnapshot_Inr(1)[OF h at2] have "v = None"
      by (simp add: st2 st find_filter_same)
    with d g h show ?thesis by blast
  qed
  from part tot show ?thesis by blast
qed

theorem deleteSnapshot_removes_only_witness:
  "attached (fst populated) \<and> snap_a \<in> set (stored (snd populated)) \<and>
   snap_b \<in> set (stored (snd populated)) \<and> id' snap_a \<noteq> id' snap_b \<and> ready populated \<and>
   (\<exists>s1 rs s2 s3. deleteSnapshot ''a'' populated = (Inr (), s1) \<and>
      getAllSnapshots s1 = (Inr rs, s2) \<and> rs = [snap_b, snap_c] \<and>
      getSnapshot ''a'' s2 = (Inr None, s3))"
proof -
  have a: "attached (fst populated)" using ready_populated by (rule ready_attached)
  have b: "snap_a \<in> set (stored (snd populated))" "snap_b \<in> set (stored (snd populated))"
    by (simp_all add: stored_populated)
  have c: "id' snap_a \<noteq> id' snap_b" by (simp add: snap_a_def snap_b_def)
  have i: "id' snap_a = ''a''" by (simp add: snap_a_def)
  from deleteSnapshot_removes_only[OF a b c] ready_populated obtain s1 rs s2 s3 where
    d: "deleteSnapshot ''a'' populated = (Inr (), s1)"
    and g: "getAllSnapshots s1 = (Inr rs, s2)"
    and h: "getSnapshot ''a'' s2 = (Inr None, s3)"
    and rs: "rs = filter (\<lambda>x. id' x \<noteq> ''a'') (sort_key (\<lambda>x. - savedAt x) (stored (snd populated)))"
    unfolding i by blast
  have "rs = [snap_b, snap_c]"
    unfolding rs stored_populated by (simp add: snap_a_def snap_b_def snap_c_def)
  with a b c d g h ready_populated show ?thesis by blast
qed

text \<open>
  C7: \<open>init\<close> is idempotent. With a connection held it resolves at once and leaves the
  service and the engine exactly as they were. An open of a database that is already at
  the service's version leaves the databases as they were and adds at most the open
  request to the journal: the creation sequence does not run again. From a ready state
  two calls in a row both resolve, the second changes nothing, and the stored records are
  those from before.
\<close>

theorem init_idempotent:
  "(db (fst s) \<noteq> None \<longrightarrow> init s = (Inr (), s)) \<and>
   (\<forall>d r s'. map_of (databases (snd s)) DB_NAME = Some d \<and> version d = DB_VERSION \<and>
        init s = (r, s') \<longrightarrow>
        databases (snd s') = databases (snd s) \<and>
        (journal (snd s') = journal (snd s) \<or>
         journal (snd s') = journal (snd s) @ [Open DB_NAME DB_VERSION])) \<and>
   (ready s \<longrightarrow>
      (\<exists>s1. init s = (Inr (), s1) \<and> init s1 = (Inr (), s1) \<and> stored (snd s1) = stored (snd s)))"
proof -
  have a: "init s = (Inr (), s)" if "db (fst s) \<noteq> None"
    using that by (rule init_open)
  have b: "databases (snd s') = databases (snd s) \<and>
        (journal (snd s') = journal (snd s) \<or>
         journal (snd s') = journal (snd s) @ [Open DB_NAME DB_VERSION])"
    if "map_of (databases (snd s)) DB_NAME = Some d" "version d = DB_VERSION" "init s = (r, s')"
    for d r s'
    using that by (rule init_same_version)
  have c: "\<exists>s1. init s = (Inr (), s1) \<and> init s1 = (Inr (), s1) \<and> stored (snd s1) = stored (snd s)"
    if "ready s"
  proof -
    from init_ready[OF that] obtain s1 where
      i: "init s = (Inr (), s1)" and o: "db (fst s1) \<noteq> None" by auto
    from init_records_of[OF i] have "stored (snd s1) = stored (snd s)" by (simp add: stored_def)
    with i init_open[OF o] show ?thesis by blast
  qed
  from a b c show ?thesis by blast
qed

theorem init_idempotent_witness:
  "db (fst populated) \<noteq> None \<and> ready populated \<and> init populated = (Inr (), populated) \<and>
   (\<exists>d. map_of (databases (snd reopened)) DB_NAME = Some d \<and> version d = DB_VERSION) \<and>
   (\<exists>s'. init reopened = (Inr (), s') \<and> databases (snd s') = databases (snd reopened) \<and>
      journal (snd s') = [Open DB_NAME DB_VERSION])"
proof -
  have p: "db (fst populated) \<noteq> None" by (simp add: populated_def)
  have d: "map_of (databases (snd reopened)) DB_NAME =
             Some \<lparr>version = DB_VERSION,
                   objectStores = [(STORE_NAME, snapshots_schema\<lparr>records := [snap_a, snap_b, snap_c]\<rparr>)]\<rparr>"
    by (simp add: reopened_def populated_def)
  have r: "ready reopened"
    by (simp add: reopened_def populated_def ready_def attached_def)
  from init_ready[OF r] obtain s' where i: "init reopened = (Inr (), s')" by blast
  have j: "journal (snd reopened) = []" "faults (snd reopened) = []"
    by (simp_all add: reopened_def populated_def)
  have "journal (snd s') \<noteq> []"
    using i d j
    by (auto simp: init_def init_begin_def init_settle_def idb_open_def next_outcome_def Let_def
          reopened_def DB_VERSION_def split: if_splits sum.splits)
  moreover from init_idempotent[of reopened]
  have "\<forall>d r s'. map_of (databases (snd reopened)) DB_NAME = Some d \<and> version d = DB_VERSION \<and>
        init reopened = (r, s') \<longrightarrow>
        databases (snd s') = databases (snd reopened) \<and>
        (journal (snd s') = journal (snd reopened) \<or>
         journal (snd s') = journal (snd reopened) @ [Open DB_NAME DB_VERSION])"
    by (rule conjunct1[OF conjunct2])
  from this[rule_format, OF conjI[OF d conjI[OF _ i]]]
  have "databases (snd s') = databases (snd reopened) \<and>
        (journal (snd s') = [] \<or> journal (snd s') = [Open DB_NAME DB_VERSION])"
    by (simp add: j)
  ultimately
  have e: "databases (snd s') = databases (snd reopened) \<and> journal (snd s') = [Open DB_NAME DB_VERSION]"
    by blast
  from init_idempotent[of populated] p have "init populated = (Inr (), populated)" by blast
  with e p ready_populated i d show ?thesis by simp
qed

text \<open>
  C8 as stated fails: on a new browser profile two concurrent first calls make the engine
  serve two open requests, and the two callers find two different connections.
\<close>

theorem init_concurrent_counterexample:
  "\<not> open_requests (snd (snd (snd (init_concurrent fresh)))) \<le> 1 \<and>
   snd (fst (init_concurrent fresh)) = Some \<lparr>conn_id = 0, conn_name = DB_NAME\<rparr> \<and>
   snd (fst (snd (init_concurrent fresh))) = Some \<lparr>conn_id = 1, conn_name = DB_NAME\<rparr> \<and>
   snd (fst (init_concurrent fresh)) \<noteq> snd (fst (snd (init_concurrent fresh)))"
  by (simp add: init_concurrent_def fresh_def init_begin_def init_settle_def idb_open_def
        next_outcome_def Let_def onupgradeneeded_def objectStoreNames_contains_def
        lookup_store_def createObjectStore_def createIndex_def update_store_def
        open_requests_def DB_VERSION_def DB_NAME_def STORE_NAME_def)

text \<open>
  C8, as amended: \<open>init\<close> has no single-flight guard. Of two concurrent first calls each
  issues its own open request and resolves with its own connection, the service keeping the
  later one; the engine runs the creation sequence at most once, for the first request on
  a new database, and both connections are to the database with the store in place, the
  stored records unchanged. With a connection held, both calls resolve at once with that
  connection and leave everything as it was.
\<close>

theorem init_concurrent_first_calls:
  "(db (fst s) \<noteq> None \<longrightarrow>
      init_concurrent s = ((Inr (), db (fst s)), (Inr (), db (fst s)), s)) \<and>
   (ready s \<and> db (fst s) = None \<longrightarrow>
      (\<exists>w'. init_concurrent s =
          ((Inr (), Some \<lparr>conn_id = connections (snd s), conn_name = DB_NAME\<rparr>),
           (Inr (), Some \<lparr>conn_id = Suc (connections (snd s)), conn_name = DB_NAME\<rparr>),
           \<lparr>db = Some \<lparr>conn_id = Suc (connections (snd s)), conn_name = DB_NAME\<rparr>\<rparr>, w') \<and>
         ready (\<lparr>db = Some \<lparr>conn_id = Suc (connections (snd s)), conn_name = DB_NAME\<rparr>\<rparr>, w') \<and>
         lookup_store DB_NAME STORE_NAME w' \<noteq> None \<and>
         stored w' = stored (snd s) \<and>
         journal w' = journal (snd s) @ Open DB_NAME DB_VERSION #
           (if map_of (databases (snd s)) DB_NAME = None then creation_events else []) @
           [Open DB_NAME DB_VERSION]))"
proof -
  have a: "init_concurrent s = ((Inr (), db (fst s)), (Inr (), db (fst s)), s)"
    if "db (fst s) \<noteq> None"
    using that by (simp add: init_concurrent_def init_begin_def init_settle_def)
  have b: "\<exists>w'. init_concurrent s =
          ((Inr (), Some \<lparr>conn_id = connections (snd s), conn_name = DB_NAME\<rparr>),
           (Inr (), Some \<lparr>conn_id = Suc (connections (snd s)), conn_name = DB_NAME\<rparr>),
           \<lparr>db = Some \<lparr>conn_id = Suc (connections (snd s)), conn_name = DB_NAME\<rparr>\<rparr>, w') \<and>
         ready (\<lparr>db = Some \<lparr>conn_id = Suc (connections (snd s)), conn_name = DB_NAME\<rparr>\<rparr>, w') \<and>
         lookup_store DB_NAME STORE_NAME w' \<noteq> None \<and>
         stored w' = stored (snd s) \<and>
         journal w' = journal (snd s) @ Open DB_NAME DB_VERSION #
           (if map_of (databases (snd s)) DB_NAME = None then creation_events else []) @
           [Open DB_NAME DB_VERSION]"
    if r: "ready s" and n: "db (fst s) = None"
  proof -
    define hA where "hA = \<lparr>conn_id = connections (snd s), conn_name = DB_NAME\<rparr>"
    define hB where "hB = \<lparr>conn_id = Suc (connections (snd s)), conn_name = DB_NAME\<rparr>"
    have r0: "ready (\<lparr>db = None\<rparr>, snd s)" using r ready_reset[of "fst s" "snd s"] by simp
    from settle_pending[OF r0] obtain w1 where
      s1: "init_settle Pending s = (Inr (), (fst s)\<lparr>db := Some hA\<rparr>, w1)"
      and c1: "connections w1 = Suc (connections (snd s))"
      and r1: "ready (\<lparr>db = Some hA\<rparr>, w1)"
      and st1: "stored w1 = stored (snd s)"
      and j1: "journal w1 = journal (snd s) @ Open DB_NAME DB_VERSION #
           (if map_of (databases (snd s)) DB_NAME = None then creation_events else [])"
      unfolding hA_def by blast
    from r1 have ex1: "map_of (databases w1) DB_NAME \<noteq> None"
      by (auto simp: ready_def split: option.splits)
    have r1': "ready (\<lparr>db = None\<rparr>, snd ((fst s)\<lparr>db := Some hA\<rparr>, w1))"
      using ready_reset[OF r1] by simp
    from settle_pending[OF r1'] c1 ex1 obtain w2 where
      s2: "init_settle Pending ((fst s)\<lparr>db := Some hA\<rparr>, w1) =
             (Inr (), (fst s)\<lparr>db := Some hB\<rparr>, w2)"
      and r2: "ready (\<lparr>db = Some hB\<rparr>, w2)"
      and st2: "stored w2 = stored w1"
      and j2: "journal w2 = journal w1 @ [Open DB_NAME DB_VERSION]"
      unfolding hB_def by auto
    have e: "(fst s)\<lparr>db := Some hB\<rparr> = \<lparr>db = Some hB\<rparr>" by (cases "fst s") simp
    have "init_concurrent s = ((Inr (), Some hA), (Inr (), Some hB), \<lparr>db = Some hB\<rparr>, w2)"
      using n s1 s2 e by (simp add: init_concurrent_def init_begin_def)
    moreover from r2 have "lookup_store DB_NAME STORE_NAME w2 \<noteq> None"
      by (auto simp: ready_def lookup_store_def split: option.splits)
    ultimately show ?thesis
      using r2 st1 st2 j1 j2 unfolding hA_def hB_def by auto
  qed
  from a b show ?thesis by blast
qed

theorem init_concurrent_first_calls_witness:
  "ready fresh \<and> db (fst fresh) = None \<and> db (fst populated) \<noteq> None \<and>
   init_concurrent populated =
     ((Inr (), Some \<lparr>conn_id = 0, conn_name = DB_NAME\<rparr>),
      (Inr (), Some \<lparr>conn_id = 0, conn_name = DB_NAME\<rparr>), populated) \<and>
   (\<exists>w'. init_concurrent fresh =
      ((Inr (), Some \<lparr>conn_id = 0, conn_name = DB_NAME\<rparr>),
       (Inr (), Some \<lparr>conn_id = 1, conn_name = DB_NAME\<rparr>),
       \<lparr>db = Some \<lparr>conn_id = 1, conn_name = DB_NAME\<rparr>\<rparr>, w') \<and>
      journal w' = Open DB_NAME DB_VERSION # creation_events @ [Open DB_NAME DB_VERSION])"
proof -
  have f: "ready fresh" "db (fst fresh) = None" "connections (snd fresh) = 0"
    "journal (snd fresh) = []" "map_of (databases (snd fresh)) DB_NAME = None"
    by (simp_all add: fresh_def ready_def attached_def)
  have p: "db (fst populated) = Some \<lparr>conn_id = 0, conn_name = DB_NAME\<rparr>"
    by (simp add: populated_def)
  from init_concurrent_first_calls[of populated] p
  have "init_concurrent populated =
     ((Inr (), Some \<lparr>conn_id = 0, conn_name = DB_NAME\<rparr>),
      (Inr (), Some \<lparr>conn_id = 0, conn_name = DB_NAME\<rparr>), populated)" by simp
  moreover from init_concurrent_first_calls[of fresh] f
  have "\<exists>w'. init_concurrent fresh =
      ((Inr (), Some \<lparr>conn_id = 0, conn_name = DB_NAME\<rparr>),
       (Inr (), Some \<lparr>conn_id = 1, conn_name = DB_NAME\<rparr>),
       \<lparr>db = Some \<lparr>conn_id = 1, conn_name = DB_NAME\<rparr>\<rparr>, w') \<and>
      journal w' = Open DB_NAME DB_VERSION # creation_events @ [Open DB_NAME DB_VERSION]"
    by auto
  ultimately show ?thesis using f p by simp
qed


section \<open>Claims about the Wayback client\<close>

text \<open>
  C9 as stated fails: in demo mode \<open>savePageNow\<close> with both keys empty resolves with
  \<open>saved = true\<close>; the test of the credentials comes after the test of demo mode.
\<close>

theorem savePageNow_demo_counterexample:
  "savePageNow demo_env ''example.org'' [] [] =
     (Inr \<lparr>saved = True, message = ''Mock Mode: URL successfully queued for capture.''\<rparr>, []) \<and>
   fst (savePageNow demo_env ''example.org'' [] []) \<noteq> Inl MissingCredentials"
  by (simp add: savePageNow_def isDemoMode_demo)

text \<open>
  C9, as amended: when \<open>accessKey\<close> or \<open>secretKey\<close> is empty, \<open>savePageNow\<close> hands no
  request to \<open>fetch\<close>, whatever the url; outside demo mode it fails with the error
  \<open>Missing Credentials\<close>, in demo mode it resolves with \<open>saved = true\<close> and the mock
  message.
\<close>

theorem savePageNow_missing_credentials:
  "accessKey = [] \<or> secretKey = [] \<Longrightarrow>
     savePageNow env url accessKey secretKey =
       (if truthy (isDemoMode env)
        then (Inr \<lparr>saved = True, message = ''Mock Mode: URL successfully queued for capture.''\<rparr>, [])
        else (Inl MissingCredentials, []))"
  by (auto simp: savePageNow_def)

theorem savePageNow_missing_credentials_witness:
  "([] = ([] :: string) \<or> ''secret'' = []) \<and> \<not> truthy (isDemoMode live_env) \<and>
   savePageNow live_env ''example.org'' [] ''secret'' = (Inl MissingCredentials, []) \<and>
   (''key'' = [] \<or> [] = ([] :: string)) \<and> truthy (isDemoMode demo_env) \<and>
   savePageNow demo_env ''example.org'' ''key'' [] =
     (Inr \<lparr>saved = True, message = ''Mock Mode: URL successfully queued for capture.''\<rparr>, [])"
  using savePageNow_missing_credentials[of "[]" "''secret''" live_env "''example.org''"]
    savePageNow_missing_credentials[of "''key''" "[]" demo_env "''example.org''"]
  by (simp add: isDemoMode_live isDemoMode_demo)

text \<open>
  C10 as stated fails: outside demo mode, an OK response to \<open>fetchCDX\<close> whose content type
  is not JSON and whose body is empty resolves with the empty list, not with the mock data.
\<close>

theorem fetchCDX_empty_counterexample:
  "\<not> truthy (isDemoMode live_env) \<and>
   fetch live_env (cdx_request live_env ''empty.example'') =
     Response \<lparr>ok = True, status' = 200, content_type = Some ''text/plain'', body = Some ''''\<rparr> \<and>
   fst (fetchCDX live_env ''empty.example'') = Inr [] \<and>
   length (getMockCDX ''empty.example'') = 15 \<and>
   fst (fetchCDX live_env ''empty.example'') \<noteq> Inr (getMockCDX ''empty.example'')"
proof -
  have f: "fetch live_env (cdx_request live_env ''empty.example'') =
     Response \<lparr>ok = True, status' = 200, content_type = Some ''text/plain'', body = Some ''''\<rparr>"
    by (simp add: live_env_def cdx_request_def get_request_def)
  have e: "empty_non_json live_env ''empty.example''"
    unfolding empty_non_json_def using f by (simp add: live_env_def non_json_def)
  have r: "fst (fetchCDX live_env ''empty.example'') = Inr []"
    using fetchCDX_try_empty[OF e] empty_not_failure[OF e]
    by (simp add: fetchCDX_result isDemoMode_live)
  have l: "length (getMockCDX ''empty.example'') = 15"
    by (rule length_getMockCDX)
  then have "getMockCDX ''empty.example'' \<noteq> []" by auto
  with r f l show ?thesis by (simp add: isDemoMode_live)
qed

text \<open>
  C10, as amended: \<open>checkAvailability\<close> and \<open>fetchCDX\<close> never reject, for every environment
  and url. In demo mode, and whenever the \<open>try\<close> raises (network error, status not OK,
  body unreadable or not parseable, for \<open>fetchCDX\<close> a non-empty body that is not JSON or a
  \<open>null\<close> row), they resolve with the mock data of the url. An OK response that is not
  JSON and has an empty body resolves \<open>fetchCDX\<close> with the empty list.
\<close>

theorem wayback_reads_never_reject:
  "(\<exists>v. fst (checkAvailability env url) = Inr v) \<and>
   (\<exists>v. fst (fetchCDX env url) = Inr v) \<and>
   (truthy (isDemoMode env) \<or> availability_failure env url \<longrightarrow>
      fst (checkAvailability env url) = Inr (getMockAvailability url)) \<and>
   (truthy (isDemoMode env) \<or> cdx_failure env url \<longrightarrow>
      fst (fetchCDX env url) = Inr (getMockCDX url)) \<and>
   (\<not> truthy (isDemoMode env) \<and> empty_non_json env url \<longrightarrow>
      fst (fetchCDX env url) = Inr [])"
proof -
  have a: "\<exists>v. fst (checkAvailability env url) = Inr v"
    using checkAvailability_try_failure[of env url]
    by (cases "fst (checkAvailability_try env url)") (auto simp: checkAvailability_result)
  have b: "\<exists>v. fst (fetchCDX env url) = Inr v"
    using fetchCDX_try_failure[of env url]
    by (cases "fst (fetchCDX_try env url)") (auto simp: fetchCDX_result)
  have c: "fst (fetchCDX env url) = Inr []"
    if "\<not> truthy (isDemoMode env)" "empty_non_json env url"
    using that fetchCDX_try_empty[OF that(2)] empty_not_failure[OF that(2)]
    by (simp add: fetchCDX_result)
  from a b c show ?thesis
    by (simp add: checkAvailability_result fetchCDX_result)
qed

theorem wayback_reads_never_reject_witness:
  "availability_failure live_env ''down.example'' \<and>
   fst (checkAvailability live_env ''down.example'') =
     Inr (getMockAvailability ''down.example'') \<and>
   cdx_failure live_env ''busy.example'' \<and>
   fst (fetchCDX live_env ''busy.example'') = Inr (getMockCDX ''busy.example'') \<and>
   \<not> truthy (isDemoMode live_env) \<and> empty_non_json live_env ''empty.example'' \<and>
   fst (fetchCDX live_env ''empty.example'') = Inr [] \<and>
   truthy (isDemoMode demo_env) \<and>
   fst (fetchCDX demo_env ''example.org'') = Inr (getMockCDX ''example.org'')"
proof -
  have 1: "availability_failure live_env ''down.example''"
    by (simp add: availability_failure_def live_env_def get_request_def)
  have 2: "cdx_failure live_env ''busy.example''"
    by (simp add: cdx_failure_def live_env_def cdx_request_def get_request_def)
  have 3: "empty_non_json live_env ''empty.example''"
    by (simp add: empty_non_json_def live_env_def cdx_request_def get_request_def non_json_def)
  from wayback_reads_never_reject[of live_env "''down.example''"] 1
  have a: "fst (checkAvailability live_env ''down.example'') =
     Inr (getMockAvailability ''down.example'')" by blast
  from wayback_reads_never_reject[of live_env "''busy.example''"] 2
  have b: "fst (fetchCDX live_env ''busy.example'') = Inr (getMockCDX ''busy.example'')" by blast
  from wayback_reads_never_reject[of live_env "''empty.example''"] 3
  have c: "fst (fetchCDX live_env ''empty.example'') = Inr []"
    by (simp add: isDemoMode_live)
  from wayback_reads_never_reject[of demo_env "''example.org''"]
  have d: "fst (fetchCDX demo_env ''example.org'') = Inr (getMockCDX ''example.org'')"
    by (simp add: isDemoMode_demo)
  from 1 2 3 a b c d show ?thesis by (simp add: isDemoMode_live isDemoMode_demo)
qed

end
